theory Spec2Isabelle
  imports Complex_Main "HOL-Library.Monad_Syntax" "HOL-Library.Multiset"
    "HOL-Library.Char_ord" "HOL-Library.List_Lexorder"
begin

section \<open>JavaScript numbers\<close>

text \<open>
  Every number of \<^verbatim>\<open>web/app/page.tsx\<close> is a JavaScript number. The model keeps the three
  special values of IEEE 754 that decide the behaviour of comparisons and of division
  (\<open>NaN\<close>, \<open>+Infinity\<close>, \<open>-Infinity\<close>) and takes every finite number as the real number it
  denotes: rounding to 53 bits and the sign of zero are not modelled. No general statement
  below rests on a finite result being exact; the examples use integers and quotients that
  binary64 represents exactly.
\<close>

datatype jsnum = Num real | PosInf | NegInf | NaN

text \<open>\<^verbatim>\<open>a < b\<close> and \<^verbatim>\<open>a <= b\<close>: false as soon as one side is \<open>NaN\<close>.\<close>

fun js_lt :: "jsnum \<Rightarrow> jsnum \<Rightarrow> bool" where
  "js_lt NaN _ = False"
| "js_lt _ NaN = False"
| "js_lt (Num a) (Num b) = (a < b)"
| "js_lt _ NegInf = False"
| "js_lt NegInf _ = True"
| "js_lt PosInf _ = False"
| "js_lt _ PosInf = True"

fun js_le :: "jsnum \<Rightarrow> jsnum \<Rightarrow> bool" where
  "js_le NaN _ = False"
| "js_le _ NaN = False"
| "js_le (Num a) (Num b) = (a \<le> b)"
| "js_le NegInf _ = True"
| "js_le _ PosInf = True"
| "js_le _ NegInf = False"
| "js_le PosInf _ = False"

text \<open>\<^verbatim>\<open>-a\<close>, \<^verbatim>\<open>a + b\<close>, \<^verbatim>\<open>a - b\<close>, \<^verbatim>\<open>a * b\<close> and \<^verbatim>\<open>a / b\<close>.\<close>

fun js_neg :: "jsnum \<Rightarrow> jsnum" where
  "js_neg (Num a) = Num (- a)"
| "js_neg PosInf = NegInf"
| "js_neg NegInf = PosInf"
| "js_neg NaN = NaN"

fun js_add :: "jsnum \<Rightarrow> jsnum \<Rightarrow> jsnum" where
  "js_add NaN _ = NaN"
| "js_add _ NaN = NaN"
| "js_add (Num a) (Num b) = Num (a + b)"
| "js_add PosInf NegInf = NaN"
| "js_add NegInf PosInf = NaN"
| "js_add PosInf _ = PosInf"
| "js_add NegInf _ = NegInf"
| "js_add _ PosInf = PosInf"
| "js_add _ NegInf = NegInf"

definition js_sub :: "jsnum \<Rightarrow> jsnum \<Rightarrow> jsnum" where
  "js_sub a b = js_add a (js_neg b)"

text \<open>The sign of an infinite product or quotient: \<open>NaN\<close> at zero, where IEEE 754 has none.\<close>

definition js_signed_inf :: "real \<Rightarrow> jsnum" where
  "js_signed_inf s = (if s = 0 then NaN else if 0 < s then PosInf else NegInf)"

fun js_mul :: "jsnum \<Rightarrow> jsnum \<Rightarrow> jsnum" where
  "js_mul NaN _ = NaN"
| "js_mul _ NaN = NaN"
| "js_mul (Num a) (Num b) = Num (a * b)"
| "js_mul (Num a) PosInf = js_signed_inf a"
| "js_mul (Num a) NegInf = js_signed_inf (- a)"
| "js_mul PosInf (Num b) = js_signed_inf b"
| "js_mul NegInf (Num b) = js_signed_inf (- b)"
| "js_mul PosInf PosInf = PosInf"
| "js_mul NegInf NegInf = PosInf"
| "js_mul PosInf NegInf = NegInf"
| "js_mul NegInf PosInf = NegInf"

text \<open>
  Division never raises in JavaScript: a finite non-zero number over zero is an infinity,
  zero over zero is \<open>NaN\<close>. The zero divisor is taken as \<open>+0\<close>.
\<close>

fun js_div :: "jsnum \<Rightarrow> jsnum \<Rightarrow> jsnum" where
  "js_div NaN _ = NaN"
| "js_div _ NaN = NaN"
| "js_div (Num a) (Num b) = (if b = 0 then js_signed_inf a else Num (a / b))"
| "js_div (Num a) _ = Num 0"
| "js_div PosInf (Num b) = (if 0 \<le> b then PosInf else NegInf)"
| "js_div NegInf (Num b) = (if 0 \<le> b then NegInf else PosInf)"
| "js_div _ _ = NaN"

definition js_finite :: "jsnum \<Rightarrow> bool" where
  "js_finite x = (case x of Num _ \<Rightarrow> True | _ \<Rightarrow> False)"

text \<open>
  \<^verbatim>\<open>xs[i]\<close> on an array of numbers. Outside the array the read yields \<^verbatim>\<open>undefined\<close>,
  which every numeric use in this program (\<^verbatim>\<open><=\<close>, \<^verbatim>\<open>/\<close>) coerces to \<open>NaN\<close>.
\<close>

definition js_at :: "jsnum list \<Rightarrow> int \<Rightarrow> jsnum" where
  "js_at xs i = (if 0 \<le> i \<and> i < int (length xs) then xs ! nat i else NaN)"

text \<open>
  \<^verbatim>\<open>x >> 1\<close> on an integral number: the operand is first wrapped to a signed 32-bit
  integer, then shifted arithmetically.
\<close>

definition toInt32 :: "int \<Rightarrow> int" where
  "toInt32 x = (x + 2 ^ 31) mod 2 ^ 32 - 2 ^ 31"

definition js_shr1 :: "int \<Rightarrow> int" where
  "js_shr1 x = toInt32 x div 2"


section \<open>Data\<close>

text \<open>
  \<^verbatim>\<open>type Row = { ts: string; fund_nok: number; pop: number; per_capita_nok: number }\<close>
\<close>

record Row =
  ts :: string
  fund_nok :: jsnum
  pop :: jsnum
  per_capita_nok :: jsnum

text \<open>
  \<^verbatim>\<open>type FxRow = { date: string; usdnok: number; source?: string }\<close>. The rows are cast
  from imported JSON and \<^verbatim>\<open>buildFxIndex\<close> tests them at run time, so a field may be
  missing: \<open>usdnok r = None\<close> stands for a value that is absent or not of type number,
  \<open>date r = None\<close> for an absent date.
\<close>

record FxRow =
  date :: "string option"
  usdnok :: "jsnum option"
  source :: "string option"

datatype Currency = NOK | USD

text \<open>
  \<^verbatim>\<open>type FxIndex = { datesMs: number[]; rates: number[]; lastDateMs?: number; lastRate?: number }\<close>
\<close>

record FxIndex =
  datesMs :: "jsnum list"
  rates :: "jsnum list"
  lastDateMs :: "jsnum option"
  lastRate :: "jsnum option"

text \<open>The object returned by \<^verbatim>\<open>computeChangeCurrency\<close>.\<close>

record Change =
  dNok :: jsnum
  dPct :: jsnum
  since :: string

text \<open>The only exception the modelled functions can raise: a property read on \<^verbatim>\<open>undefined\<close>.\<close>

datatype error = TypeError


section \<open>Reference row lookup\<close>

text \<open>
  The built-in \<^verbatim>\<open>new Date(s).getTime()\<close> is a parameter \<open>getTime\<close> of every function that
  calls it: it yields the milliseconds since the epoch, or \<open>NaN\<close> for a string that is no
  date.

  The loop of \<^verbatim>\<open>getRefRow\<close>, \<^verbatim>\<open>for (let i = rows.length - 1; i >= 0; i--)\<close>; the last
  argument is \<open>i + 1\<close>.
\<close>

fun getRefRow_loop :: "(string \<Rightarrow> jsnum) \<Rightarrow> Row list \<Rightarrow> jsnum \<Rightarrow> jsnum \<Rightarrow> nat \<Rightarrow> Row option" where
  "getRefRow_loop getTime rows targetTs toleranceMs 0 = None"
| "getRefRow_loop getTime rows targetTs toleranceMs (Suc i) =
     (let t = getTime (ts (rows ! i)) in
      if js_le t targetTs then
        (if js_le (js_sub targetTs t) toleranceMs then Some (rows ! i) else None)
      else getRefRow_loop getTime rows targetTs toleranceMs i)"

text \<open>On an empty array \<^verbatim>\<open>rows[rows.length - 1]\<close> is \<^verbatim>\<open>undefined\<close> and reading its \<^verbatim>\<open>ts\<close> throws.\<close>

definition getRefRow :: "(string \<Rightarrow> jsnum) \<Rightarrow> Row list \<Rightarrow> jsnum \<Rightarrow> jsnum \<Rightarrow> error + Row option" where
  "getRefRow getTime rows targetMsAgo toleranceMs =
     (if rows = [] then Inl TypeError
      else
        let latestTs = getTime (ts (last rows));
            targetTs = js_sub latestTs targetMsAgo
        in Inr (getRefRow_loop getTime rows targetTs toleranceMs (length rows)))"


section \<open>Historical exchange rates\<close>

text \<open>
  \<^verbatim>\<open>Array.prototype.sort\<close> with a comparator. The sort is stable, and for a comparator that
  orders the elements consistently its result is the one of insertion: an element goes
  before the first one it does not compare greater than.
\<close>

fun insort_cmp :: "('a \<Rightarrow> 'a \<Rightarrow> int) \<Rightarrow> 'a \<Rightarrow> 'a list \<Rightarrow> 'a list" where
  "insort_cmp cmp x [] = [x]"
| "insort_cmp cmp x (y # ys) = (if cmp x y \<le> 0 then x # y # ys else y # insort_cmp cmp x ys)"

definition sort_cmp :: "('a \<Rightarrow> 'a \<Rightarrow> int) \<Rightarrow> 'a list \<Rightarrow> 'a list" where
  "sort_cmp cmp xs = foldr (insort_cmp cmp) xs []"

text \<open>
  The filter of \<^verbatim>\<open>buildFxIndex\<close>:
  \<^verbatim>\<open>typeof r.usdnok === "number" && r.usdnok > 0 && r.date\<close>; the empty string is falsy.
\<close>

definition fxKeep :: "FxRow \<Rightarrow> bool" where
  "fxKeep r =
     ((case usdnok r of None \<Rightarrow> False | Some n \<Rightarrow> js_lt (Num 0) n) \<and>
      (case date r of None \<Rightarrow> False | Some d \<Rightarrow> d \<noteq> []))"

text \<open>
  The constant \<^verbatim>\<open>clean\<close> of \<^verbatim>\<open>buildFxIndex\<close>: the rows that pass the filter, sorted by
  \<^verbatim>\<open>a.date.localeCompare(b.date)\<close>. The built-in \<^verbatim>\<open>localeCompare\<close> is a parameter. After the
  filter every row has a date and a rate.
\<close>

definition fxClean :: "(string \<Rightarrow> string \<Rightarrow> int) \<Rightarrow> FxRow list \<Rightarrow> FxRow list" where
  "fxClean localeCompare fxRows =
     sort_cmp (\<lambda>a b. localeCompare (the (date a)) (the (date b))) (filter fxKeep fxRows)"

text \<open>\<^verbatim>\<open>buildFxIndex\<close>.\<close>

definition buildFxIndex ::
  "(string \<Rightarrow> jsnum) \<Rightarrow> (string \<Rightarrow> string \<Rightarrow> int) \<Rightarrow> FxRow list \<Rightarrow> jsnum \<Rightarrow> FxIndex" where
  "buildFxIndex getTime localeCompare fxRows envFallback =
     (let clean = fxClean localeCompare fxRows
      in if length clean = 0 then
           \<lparr>datesMs = [], rates = [], lastDateMs = None, lastRate = Some envFallback\<rparr>
         else
           let ds = map (\<lambda>r. getTime (the (date r))) clean;
               rs = map (\<lambda>r. the (usdnok r)) clean
           in \<lparr>datesMs = ds, rates = rs,
               lastDateMs = Some (js_at ds (int (length ds) - 1)),
               lastRate = Some (js_at rs (int (length rs) - 1))\<rparr>)"

text \<open>
  The binary search of \<^verbatim>\<open>findFxIdxAtOrBefore\<close>, \<^verbatim>\<open>while (lo <= hi)\<close>. With the 32-bit
  shift the midpoint can leave the interval on an array of more than \<open>2 ^ 30\<close> elements, so
  the loop is a partial function: \<open>None\<close> is a loop that does not end.
\<close>

partial_function (option) findFx_loop :: "jsnum list \<Rightarrow> jsnum \<Rightarrow> int \<Rightarrow> int \<Rightarrow> int \<Rightarrow> int option" where
  "findFx_loop ds tsMs lo hi ans =
     (if lo \<le> hi then
        (let mid = js_shr1 (lo + hi) in
         if js_le (js_at ds mid) tsMs then findFx_loop ds tsMs (mid + 1) hi mid
         else findFx_loop ds tsMs lo (mid - 1) ans)
      else Some ans)"

definition findFxIdxAtOrBefore :: "jsnum \<Rightarrow> FxIndex \<Rightarrow> int option" where
  "findFxIdxAtOrBefore tsMs idx =
     (if length (datesMs idx) = 0 then Some (- 1)
      else findFx_loop (datesMs idx) tsMs 0 (int (length (datesMs idx)) - 1) (- 1))"

definition getUsdNokAt :: "jsnum \<Rightarrow> FxIndex \<Rightarrow> jsnum \<Rightarrow> jsnum option" where
  "getUsdNokAt tsMs idx envFallback =
     do { i \<leftarrow> findFxIdxAtOrBefore tsMs idx;
          Some (if 0 \<le> i then js_at (rates idx) i else envFallback) }"

definition toCurrencyAt :: "jsnum \<Rightarrow> Currency \<Rightarrow> jsnum \<Rightarrow> FxIndex \<Rightarrow> jsnum \<Rightarrow> jsnum option" where
  "toCurrencyAt nok cur tsMs idx envFallback =
     (if cur = NOK then Some nok
      else do { rate \<leftarrow> getUsdNokAt tsMs idx envFallback; Some (js_div nok rate) })"


section \<open>Change over a window\<close>

text \<open>
  \<^verbatim>\<open>computeChangeCurrency\<close>; \<open>latest = None\<close> is \<^verbatim>\<open>undefined\<close>. The outer \<open>option\<close> is
  the termination of the two rate lookups, the sum separates a thrown exception from the
  returned value, and the inner \<open>option\<close> is the \<^verbatim>\<open>null\<close> of the source.
\<close>

definition computeChangeCurrency ::
  "(string \<Rightarrow> jsnum) \<Rightarrow> Row list \<Rightarrow> Row option \<Rightarrow> jsnum \<Rightarrow> jsnum \<Rightarrow> Currency \<Rightarrow> FxIndex \<Rightarrow> jsnum
     \<Rightarrow> (error + Change option) option" where
  "computeChangeCurrency getTime rows latest windowMs toleranceMs cur fxIdx envFallback =
     (case latest of
        None \<Rightarrow> Some (Inr None)
      | Some l \<Rightarrow>
          if length rows < 2 then Some (Inr None)
          else
            (case getRefRow getTime rows windowMs toleranceMs of
               Inl e \<Rightarrow> Some (Inl e)
             | Inr None \<Rightarrow> Some (Inr None)
             | Inr (Some ref) \<Rightarrow>
                 do { latestPer \<leftarrow> toCurrencyAt (per_capita_nok l) cur (getTime (ts l)) fxIdx envFallback;
                      refPer \<leftarrow> toCurrencyAt (per_capita_nok ref) cur (getTime (ts ref)) fxIdx envFallback;
                      let d = js_sub latestPer refPer;
                      let p = js_mul (js_div d refPer) (Num 100);
                      Some (Inr (Some \<lparr>dNok = d, dPct = p, since = ts ref\<rparr>)) }))"


section \<open>The built-ins on ISO 8601 strings\<close>

text \<open>
  The scripts of the repository write every \<^verbatim>\<open>date\<close> as
  \<^verbatim>\<open>new Date().toISOString().slice(0, 10)\<close> and every \<^verbatim>\<open>ts\<close> as
  \<^verbatim>\<open>new Date().toISOString()\<close>. The definitions below give the value ECMAScript assigns to
  these two forms: a date-only string \<^verbatim>\<open>YYYY-MM-DD\<close> is midnight UTC of that day of the
  proleptic Gregorian calendar, and \<^verbatim>\<open>YYYY-MM-DDTHH:MM:SS.sssZ\<close> adds the time of day.
  They are used where a theorem speaks of ISO dates and in the examples; the functions above
  do not depend on them.
\<close>

definition is_digit :: "char \<Rightarrow> bool" where
  "is_digit c = (CHR ''0'' \<le> c \<and> c \<le> CHR ''9'')"

definition digit_val :: "char \<Rightarrow> int" where
  "digit_val c = int (of_char c) - 48"

definition digits_val :: "string \<Rightarrow> int" where
  "digits_val cs = foldl (\<lambda>n c. 10 * n + digit_val c) 0 cs"

definition isLeapYear :: "int \<Rightarrow> bool" where
  "isLeapYear y = (y mod 4 = 0 \<and> (y mod 100 \<noteq> 0 \<or> y mod 400 = 0))"

definition daysInMonth :: "int \<Rightarrow> int \<Rightarrow> int" where
  "daysInMonth y m =
     (if m = 2 then (if isLeapYear y then 29 else 28)
      else if m = 4 \<or> m = 6 \<or> m = 9 \<or> m = 11 then 30 else 31)"

definition daysBeforeMonth :: "int \<Rightarrow> int \<Rightarrow> int" where
  "daysBeforeMonth y m =
     [0, 31, 59, 90, 120, 151, 181, 212, 243, 273, 304, 334] ! nat (m - 1)
       + (if 2 < m \<and> isLeapYear y then 1 else 0)"

text \<open>The number of leap years before year \<open>y\<close>, up to a constant.\<close>

definition leapsBefore :: "int \<Rightarrow> int" where
  "leapsBefore y = (y - 1) div 4 - (y - 1) div 100 + (y - 1) div 400"

definition daysFromEpoch :: "int \<Rightarrow> int \<Rightarrow> int \<Rightarrow> int" where
  "daysFromEpoch y m d =
     365 * (y - 1970) + (leapsBefore y - leapsBefore 1970) + daysBeforeMonth y m + (d - 1)"

definition isoYear :: "string \<Rightarrow> int" where
  "isoYear s = digits_val (take 4 s)"

definition isoMonth :: "string \<Rightarrow> int" where
  "isoMonth s = digits_val (take 2 (drop 5 s))"

definition isoDay :: "string \<Rightarrow> int" where
  "isoDay s = digits_val (take 2 (drop 8 s))"

text \<open>A calendar date \<^verbatim>\<open>YYYY-MM-DD\<close>: ten characters, a month of the year, a day of that month.\<close>

definition isoDate :: "string \<Rightarrow> bool" where
  "isoDate s =
     (length s = 10 \<and> s ! 4 = CHR ''-'' \<and> s ! 7 = CHR ''-'' \<and>
      list_all is_digit (take 4 s) \<and> list_all is_digit (take 2 (drop 5 s)) \<and>
      list_all is_digit (take 2 (drop 8 s)) \<and>
      1 \<le> isoMonth s \<and> isoMonth s \<le> 12 \<and>
      1 \<le> isoDay s \<and> isoDay s \<le> daysInMonth (isoYear s) (isoMonth s))"

definition isoDateMs :: "string \<Rightarrow> int" where
  "isoDateMs s = 86400000 * daysFromEpoch (isoYear s) (isoMonth s) (isoDay s)"

text \<open>The time of day \<^verbatim>\<open>THH:MM:SS.sssZ\<close> that follows the date in \<^verbatim>\<open>toISOString()\<close>.\<close>

definition isoTime :: "string \<Rightarrow> bool" where
  "isoTime s =
     (length s = 14 \<and> s ! 0 = CHR ''T'' \<and> s ! 3 = CHR '':'' \<and> s ! 6 = CHR '':'' \<and>
      s ! 9 = CHR ''.'' \<and> s ! 13 = CHR ''Z'' \<and>
      list_all is_digit (take 2 (drop 1 s)) \<and> list_all is_digit (take 2 (drop 4 s)) \<and>
      list_all is_digit (take 2 (drop 7 s)) \<and> list_all is_digit (take 3 (drop 10 s)) \<and>
      digits_val (take 2 (drop 1 s)) \<le> 23 \<and> digits_val (take 2 (drop 4 s)) \<le> 59 \<and>
      digits_val (take 2 (drop 7 s)) \<le> 59)"

definition isoTimeMs :: "string \<Rightarrow> int" where
  "isoTimeMs s =
     3600000 * digits_val (take 2 (drop 1 s)) + 60000 * digits_val (take 2 (drop 4 s))
       + 1000 * digits_val (take 2 (drop 7 s)) + digits_val (take 3 (drop 10 s))"

text \<open>\<^verbatim>\<open>new Date(s).getTime()\<close> on the two forms; \<open>NaN\<close> stands for every other string.\<close>

definition Date_getTime :: "string \<Rightarrow> jsnum" where
  "Date_getTime s =
     (if isoDate s then Num (of_int (isoDateMs s))
      else if isoDate (take 10 s) \<and> isoTime (drop 10 s)
        then Num (of_int (isoDateMs (take 10 s) + isoTimeMs (drop 10 s)))
      else NaN)"

text \<open>
  \<^verbatim>\<open>a.localeCompare(b)\<close> on strings of digits and hyphens of one layout: the order of the
  characters from the left.
\<close>

definition String_localeCompare :: "string \<Rightarrow> string \<Rightarrow> int" where
  "String_localeCompare a b = (if a < b then - 1 else if a = b then 0 else 1)"


section \<open>Example data\<close>

text \<open>The index \<^verbatim>\<open>buildFxIndex\<close> returns when no row passes its filter.\<close>

definition empty_index :: "jsnum \<Rightarrow> FxIndex" where
  "empty_index fb = \<lparr>datesMs = [], rates = [], lastDateMs = None, lastRate = Some fb\<rparr>"

text \<open>Two rows one day apart; the older has a per-capita value of zero.\<close>

definition zero_rows :: "Row list" where
  "zero_rows =
     [\<lparr>ts = ''2024-03-01T00:00:00.000Z'', fund_nok = Num 0, pop = Num 5500000,
       per_capita_nok = Num 0\<rparr>,
      \<lparr>ts = ''2024-03-02T00:00:00.000Z'', fund_nok = Num 550000000, pop = Num 5500000,
       per_capita_nok = Num 100\<rparr>]"

text \<open>Rows at 0 and at 100 minutes.\<close>

definition gap_rows :: "Row list" where
  "gap_rows =
     [\<lparr>ts = ''2024-03-01T00:00:00.000Z'', fund_nok = Num 2750000000000, pop = Num 5500000,
       per_capita_nok = Num 500000\<rparr>,
      \<lparr>ts = ''2024-03-01T01:40:00.000Z'', fund_nok = Num 2750000000000, pop = Num 5500000,
       per_capita_nok = Num 500000\<rparr>]"

text \<open>
  The end-to-end scenario of the specification: rows at the epoch and 24 hours later, one
  exchange-rate record of 10 dated at the epoch.
\<close>

definition scenario_rows :: "Row list" where
  "scenario_rows =
     [\<lparr>ts = ''1970-01-01T00:00:00.000Z'', fund_nok = Num 2750000000000, pop = Num 5500000,
       per_capita_nok = Num 500000\<rparr>,
      \<lparr>ts = ''1970-01-02T00:00:00.000Z'', fund_nok = Num 3025000000000, pop = Num 5500000,
       per_capita_nok = Num 550000\<rparr>]"

definition scenario_fx :: "FxRow list" where
  "scenario_fx = [\<lparr>date = Some ''1970-01-01'', usdnok = Some (Num 10), source = None\<rparr>]"

text \<open>Two exchange-rate records out of order: 10 from the epoch, 11 from the next day.\<close>

definition drift_fx :: "FxRow list" where
  "drift_fx =
     [\<lparr>date = Some ''1970-01-02'', usdnok = Some (Num 11), source = None\<rparr>,
      \<lparr>date = Some ''1970-01-01'', usdnok = Some (Num 10), source = None\<rparr>]"

text \<open>Exchange-rate rows the filter removes, one for each reason.\<close>

definition rejected_fx :: "FxRow list" where
  "rejected_fx =
     [\<lparr>date = Some ''2024-03-01'', usdnok = Some (Num 0), source = None\<rparr>,
      \<lparr>date = Some ''2024-03-02'', usdnok = Some (Num (- 1)), source = None\<rparr>,
      \<lparr>date = Some ''2024-03-03'', usdnok = Some NaN, source = None\<rparr>,
      \<lparr>date = Some ''2024-03-04'', usdnok = Some NegInf, source = None\<rparr>,
      \<lparr>date = Some ''2024-03-05'', usdnok = None, source = None\<rparr>,
      \<lparr>date = None, usdnok = Some (Num 10), source = None\<rparr>,
      \<lparr>date = Some [], usdnok = Some (Num 10), source = None\<rparr>]"

text \<open>Two rows the filter keeps, out of order; the first has the rate \<open>+Infinity\<close>.\<close>

definition mixed_fx :: "FxRow list" where
  "mixed_fx =
     [\<lparr>date = Some ''1970-01-03'', usdnok = Some PosInf, source = None\<rparr>,
      \<lparr>date = Some ''1970-01-02'', usdnok = Some (Num 10), source = None\<rparr>]"

text \<open>An index of three consecutive days from the epoch, with the rates 10, 11 and 12.\<close>

definition step_index :: FxIndex where
  "step_index =
     \<lparr>datesMs = [Num 0, Num 86400000, Num 172800000], rates = [Num 10, Num 11, Num 12],
      lastDateMs = Some (Num 172800000), lastRate = Some (Num 12)\<rparr>"

text \<open>Rows at 0, 70 and 100 minutes.\<close>

definition ref_rows :: "Row list" where
  "ref_rows =
     [\<lparr>ts = ''2024-03-01T00:00:00.000Z'', fund_nok = Num 2750000000000, pop = Num 5500000,
       per_capita_nok = Num 500000\<rparr>,
      \<lparr>ts = ''2024-03-01T01:10:00.000Z'', fund_nok = Num 2750000000000, pop = Num 5500000,
       per_capita_nok = Num 500000\<rparr>,
      \<lparr>ts = ''2024-03-01T01:40:00.000Z'', fund_nok = Num 2755500000000, pop = Num 5500000,
       per_capita_nok = Num 501000\<rparr>]"


section \<open>Auxiliary facts\<close>

lemmas date_defs = Date_getTime_def isoDate_def isoTime_def isoDateMs_def isoTimeMs_def isoYear_def
  isoMonth_def isoDay_def digits_val_def digit_val_def is_digit_def daysFromEpoch_def
  leapsBefore_def daysBeforeMonth_def daysInMonth_def isLeapYear_def

lemmas fx_defs = buildFxIndex_def fxClean_def sort_cmp_def fxKeep_def String_localeCompare_def
  getUsdNokAt_def findFxIdxAtOrBefore_def findFx_loop.simps js_shr1_def toInt32_def js_at_def
  toCurrencyAt_def

lemmas change_defs = computeChangeCurrency_def getRefRow_def js_sub_def js_signed_inf_def
  js_finite_def Let_def

subsection \<open>The order of JavaScript numbers\<close>

lemma js_le_trans: "js_le a b \<Longrightarrow> js_le b c \<Longrightarrow> js_le a c"
  by (cases a; cases b; cases c) auto

lemma js_le_lt_trans: "js_le a b \<Longrightarrow> js_lt b c \<Longrightarrow> js_le a c"
  by (cases a; cases b; cases c) auto

lemma js_le_refl_left: "js_le a b \<Longrightarrow> js_le a a"
  by (cases a; cases b) auto

lemma js_sub_zero: "js_sub x (Num 0) = x"
  by (cases x) (simp_all add: js_sub_def)

lemma js_pct_zero_reference: "\<not> js_finite (js_mul (js_div x (Num 0)) (Num 100))"
  by (cases x) (simp_all add: js_finite_def js_signed_inf_def)

lemma js_at_nth: "0 \<le> i \<Longrightarrow> i < int (length xs) \<Longrightarrow> js_at xs i = xs ! nat i"
  by (simp add: js_at_def)

subsection \<open>The binary search\<close>

text \<open>Below \<open>2 ^ 30\<close> elements the 32-bit shift is the midpoint.\<close>

lemma js_shr1_mid:
  assumes "0 \<le> lo" "lo \<le> hi" "hi < 2 ^ 30"
  shows "js_shr1 (lo + hi) = (lo + hi) div 2"
proof -
  have "0 \<le> lo + hi" "lo + hi < 2 ^ 31" using assms by auto
  then have "toInt32 (lo + hi) = lo + hi"
    unfolding toInt32_def by simp
  then show ?thesis by (simp add: js_shr1_def)
qed

text \<open>
  The loop ends on every array of at most \<open>2 ^ 30\<close> elements, sorted or not, and what it
  returns is the initial answer or an index whose date is not after the instant.
\<close>

lemma findFx_loop_returns:
  assumes bound: "length ds \<le> 2 ^ 30"
  shows "0 \<le> lo \<Longrightarrow> hi < int (length ds) \<Longrightarrow>
         \<exists>k. findFx_loop ds t lo hi ans = Some k \<and>
             (k = ans \<or> (lo \<le> k \<and> k \<le> hi \<and> js_le (js_at ds k) t))"
proof (induction "nat (hi + 1 - lo)" arbitrary: lo hi ans rule: less_induct)
  case less
  show ?case
  proof (cases "lo \<le> hi")
    case False
    then show ?thesis by (subst findFx_loop.simps) simp
  next
    case True
    have "int (length ds) \<le> int (2 ^ 30)" using bound by (simp only: of_nat_le_iff)
    then have hi30: "hi < 2 ^ 30" using less.prems(2) by simp
    have mid: "js_shr1 (lo + hi) = (lo + hi) div 2"
      using less.prems(1) True hi30 by (rule js_shr1_mid)
    let ?mid = "(lo + hi) div 2"
    have range: "lo \<le> ?mid" "?mid \<le> hi" using True by linarith+
    show ?thesis
    proof (cases "js_le (js_at ds ?mid) t")
      case le: True
      have "nat (hi + 1 - (?mid + 1)) < nat (hi + 1 - lo)" using range True by linarith
      moreover have "0 \<le> ?mid + 1" using range less.prems(1) by linarith
      ultimately obtain k where k: "findFx_loop ds t (?mid + 1) hi ?mid = Some k"
        "k = ?mid \<or> (?mid + 1 \<le> k \<and> k \<le> hi \<and> js_le (js_at ds k) t)"
        using less.hyps[of hi "?mid + 1" ?mid] less.prems(2) by blast
      have "findFx_loop ds t lo hi ans = Some k"
        by (subst findFx_loop.simps) (simp add: True mid le k(1))
      moreover have "lo \<le> k \<and> k \<le> hi \<and> js_le (js_at ds k) t"
        using k(2) range le by auto
      ultimately show ?thesis by blast
    next
      case nle: False
      have "nat (?mid - 1 + 1 - lo) < nat (hi + 1 - lo)" using range True by linarith
      moreover have "?mid - 1 < int (length ds)" using range less.prems(2) by linarith
      ultimately obtain k where k: "findFx_loop ds t lo (?mid - 1) ans = Some k"
        "k = ans \<or> (lo \<le> k \<and> k \<le> ?mid - 1 \<and> js_le (js_at ds k) t)"
        using less.hyps[of "?mid - 1" lo ans] less.prems(1) by blast
      have "findFx_loop ds t lo hi ans = Some k"
        by (subst findFx_loop.simps) (simp add: True mid nle k(1))
      moreover have "k = ans \<or> (lo \<le> k \<and> k \<le> hi \<and> js_le (js_at ds k) t)"
        using k(2) range by auto
      ultimately show ?thesis by blast
    qed
  qed
qed

lemma findFxIdxAtOrBefore_returns:
  assumes "length (datesMs idx) \<le> 2 ^ 30"
  shows "\<exists>k. findFxIdxAtOrBefore t idx = Some k \<and> - 1 \<le> k \<and> k < int (length (datesMs idx)) \<and>
             (0 \<le> k \<longrightarrow> js_le (js_at (datesMs idx) k) t)"
proof (cases "length (datesMs idx) = 0")
  case True
  then show ?thesis by (simp add: findFxIdxAtOrBefore_def)
next
  case False
  obtain k where k: "findFx_loop (datesMs idx) t 0 (int (length (datesMs idx)) - 1) (- 1) = Some k"
     "k = - 1 \<or> (0 \<le> k \<and> k \<le> int (length (datesMs idx)) - 1 \<and> js_le (js_at (datesMs idx) k) t)"
    using findFx_loop_returns[OF assms, of 0 "int (length (datesMs idx)) - 1" t "- 1"] by auto
  then show ?thesis using False by (auto simp add: findFxIdxAtOrBefore_def)
qed

lemma sorted_js_at:
  assumes "sorted_wrt js_le ds" "0 \<le> i" "i < j" "j < int (length ds)"
  shows "js_le (js_at ds i) (js_at ds j)"
proof -
  have "nat i < nat j" "nat j < length ds" using assms by linarith+
  then have "js_le (ds ! nat i) (ds ! nat j)"
    using assms(1) by (simp add: sorted_wrt_iff_nth_less)
  then show ?thesis using assms by (simp add: js_at_def)
qed

text \<open>
  On a sorted array the loop keeps the invariant of the search: every date left of \<open>lo\<close> is
  not after the instant, every date right of \<open>hi\<close> is, and \<open>ans = lo - 1\<close>.
\<close>

lemma findFx_loop_sorted:
  assumes sorted: "sorted_wrt js_le ds" and bound: "length ds \<le> 2 ^ 30"
  shows "0 \<le> lo \<Longrightarrow> hi < int (length ds) \<Longrightarrow> lo \<le> hi + 1 \<Longrightarrow> ans = lo - 1 \<Longrightarrow>
         (\<forall>j. 0 \<le> j \<and> j < lo \<longrightarrow> js_le (js_at ds j) t) \<Longrightarrow>
         (\<forall>j. hi < j \<and> j < int (length ds) \<longrightarrow> \<not> js_le (js_at ds j) t) \<Longrightarrow>
         \<exists>k. findFx_loop ds t lo hi ans = Some k \<and> - 1 \<le> k \<and> k < int (length ds) \<and>
             (\<forall>j. 0 \<le> j \<and> j \<le> k \<longrightarrow> js_le (js_at ds j) t) \<and>
             (\<forall>j. k < j \<and> j < int (length ds) \<longrightarrow> \<not> js_le (js_at ds j) t)"
proof (induction "nat (hi + 1 - lo)" arbitrary: lo hi ans rule: less_induct)
  case less
  show ?case
  proof (cases "lo \<le> hi")
    case False
    then have "lo = hi + 1" using less.prems(3) by linarith
    moreover have "findFx_loop ds t lo hi ans = Some ans"
      using False by (subst findFx_loop.simps) simp
    ultimately show ?thesis using less.prems by auto
  next
    case True
    have "int (length ds) \<le> int (2 ^ 30)" using bound by (simp only: of_nat_le_iff)
    then have hi30: "hi < 2 ^ 30" using less.prems(2) by simp
    have mid: "js_shr1 (lo + hi) = (lo + hi) div 2"
      using less.prems(1) True hi30 by (rule js_shr1_mid)
    let ?mid = "(lo + hi) div 2"
    have range: "lo \<le> ?mid" "?mid \<le> hi" using True by linarith+
    show ?thesis
    proof (cases "js_le (js_at ds ?mid) t")
      case le: True
      have below: "\<forall>j. 0 \<le> j \<and> j < ?mid + 1 \<longrightarrow> js_le (js_at ds j) t"
      proof (intro allI impI)
        fix j assume j: "0 \<le> j \<and> j < ?mid + 1"
        show "js_le (js_at ds j) t"
        proof (cases "j = ?mid")
          case True then show ?thesis using le by simp
        next
          case False
          then have "js_le (js_at ds j) (js_at ds ?mid)"
            using j range less.prems(2) by (intro sorted_js_at[OF sorted]) linarith+
          then show ?thesis using le by (rule js_le_trans)
        qed
      qed
      have "nat (hi + 1 - (?mid + 1)) < nat (hi + 1 - lo)" using range True by linarith
      moreover have "0 \<le> ?mid + 1" "?mid + 1 \<le> hi + 1" "?mid = ?mid + 1 - 1"
        using range less.prems(1) by linarith+
      ultimately obtain k where k: "findFx_loop ds t (?mid + 1) hi ?mid = Some k"
        "- 1 \<le> k" "k < int (length ds)"
        "\<forall>j. 0 \<le> j \<and> j \<le> k \<longrightarrow> js_le (js_at ds j) t"
        "\<forall>j. k < j \<and> j < int (length ds) \<longrightarrow> \<not> js_le (js_at ds j) t"
        using less.hyps[of hi "?mid + 1" ?mid] less.prems(2,6) below by blast
      have "findFx_loop ds t lo hi ans = Some k"
        by (subst findFx_loop.simps) (simp add: True mid le k(1))
      then show ?thesis using k by blast
    next
      case nle: False
      have above: "\<forall>j. ?mid - 1 < j \<and> j < int (length ds) \<longrightarrow> \<not> js_le (js_at ds j) t"
      proof (intro allI impI)
        fix j assume j: "?mid - 1 < j \<and> j < int (length ds)"
        show "\<not> js_le (js_at ds j) t"
        proof (cases "j = ?mid")
          case True then show ?thesis using nle by simp
        next
          case False
          then have "js_le (js_at ds ?mid) (js_at ds j)"
            using j range less.prems(1) by (intro sorted_js_at[OF sorted]) linarith+
          then show ?thesis using nle js_le_trans by blast
        qed
      qed
      have "nat (?mid - 1 + 1 - lo) < nat (hi + 1 - lo)" using range True by linarith
      moreover have "?mid - 1 < int (length ds)" "lo \<le> ?mid - 1 + 1"
        using range less.prems(2) by linarith+
      ultimately obtain k where k: "findFx_loop ds t lo (?mid - 1) ans = Some k"
        "- 1 \<le> k" "k < int (length ds)"
        "\<forall>j. 0 \<le> j \<and> j \<le> k \<longrightarrow> js_le (js_at ds j) t"
        "\<forall>j. k < j \<and> j < int (length ds) \<longrightarrow> \<not> js_le (js_at ds j) t"
        using less.hyps[of "?mid - 1" lo ans] less.prems(1,4,5) above by blast
      have "findFx_loop ds t lo hi ans = Some k"
        by (subst findFx_loop.simps) (simp add: True mid nle k(1))
      then show ?thesis using k by blast
    qed
  qed
qed

lemma findFxIdxAtOrBefore_sorted:
  assumes "sorted_wrt js_le (datesMs idx)" "length (datesMs idx) \<le> 2 ^ 30"
  shows "\<exists>k. findFxIdxAtOrBefore t idx = Some k \<and> - 1 \<le> k \<and> k < int (length (datesMs idx)) \<and>
             (\<forall>j. 0 \<le> j \<and> j \<le> k \<longrightarrow> js_le (js_at (datesMs idx) j) t) \<and>
             (\<forall>j. k < j \<and> j < int (length (datesMs idx)) \<longrightarrow> \<not> js_le (js_at (datesMs idx) j) t)"
proof (cases "length (datesMs idx) = 0")
  case True
  then show ?thesis by (auto simp add: findFxIdxAtOrBefore_def)
next
  case False
  have "\<exists>k. findFx_loop (datesMs idx) t 0 (int (length (datesMs idx)) - 1) (- 1) = Some k \<and>
             - 1 \<le> k \<and> k < int (length (datesMs idx)) \<and>
             (\<forall>j. 0 \<le> j \<and> j \<le> k \<longrightarrow> js_le (js_at (datesMs idx) j) t) \<and>
             (\<forall>j. k < j \<and> j < int (length (datesMs idx)) \<longrightarrow> \<not> js_le (js_at (datesMs idx) j) t)"
    by (rule findFx_loop_sorted[OF assms]) auto
  then show ?thesis using False by (simp add: findFxIdxAtOrBefore_def)
qed

subsection \<open>The change over a window\<close>

lemma computeChangeCurrency_resolved:
  assumes "latest = Some l" "2 \<le> length rows"
    and "getRefRow getTime rows windowMs toleranceMs = Inr (Some ref)"
    and "toCurrencyAt (per_capita_nok l) cur (getTime (ts l)) fxIdx envFallback = Some lp"
    and "toCurrencyAt (per_capita_nok ref) cur (getTime (ts ref)) fxIdx envFallback = Some rp"
  shows "computeChangeCurrency getTime rows latest windowMs toleranceMs cur fxIdx envFallback =
           Some (Inr (Some \<lparr>dNok = js_sub lp rp,
                            dPct = js_mul (js_div (js_sub lp rp) rp) (Num 100),
                            since = ts ref\<rparr>))"
  using assms by (simp add: computeChangeCurrency_def Let_def)


section \<open>The change calculator\<close>

subsection \<open>A reference value of zero\<close>

text \<open>
  Claim C1, as the source has it. \<^verbatim>\<open>computeChangeCurrency\<close> has no test of the converted
  reference value. When the reference row resolves and converts to zero, the function still
  returns an object: its \<^verbatim>\<open>dNok\<close> is the converted latest value and its \<^verbatim>\<open>dPct\<close> is
  \<^verbatim>\<open>(d / 0) * 100\<close>, which is never a finite number (\<open>NaN\<close> or an infinity).
\<close>

theorem computeChangeCurrency_zero_reference:
  assumes "latest = Some l" "2 \<le> length rows"
    and "getRefRow getTime rows windowMs toleranceMs = Inr (Some ref)"
    and "toCurrencyAt (per_capita_nok l) cur (getTime (ts l)) fxIdx envFallback = Some lp"
    and "toCurrencyAt (per_capita_nok ref) cur (getTime (ts ref)) fxIdx envFallback = Some (Num 0)"
  shows "\<exists>c. computeChangeCurrency getTime rows latest windowMs toleranceMs cur fxIdx envFallback
               = Some (Inr (Some c)) \<and>
             dNok c = lp \<and> dPct c = js_mul (js_div lp (Num 0)) (Num 100) \<and>
             \<not> js_finite (dPct c) \<and> since c = ts ref"
  using computeChangeCurrency_resolved[OF assms] by (simp add: js_sub_zero js_pct_zero_reference)

text \<open>
  The theorem at two rows one day apart, the older with a per-capita value of zero, in the
  home currency with the 24 hour window.
\<close>

theorem computeChangeCurrency_zero_reference_witness:
  "\<exists>c. computeChangeCurrency Date_getTime zero_rows (Some (zero_rows ! 1)) (Num 86400000)
          (Num 21600000) NOK (empty_index (Num 10)) (Num 10) = Some (Inr (Some c)) \<and>
       dNok c = Num 100 \<and> \<not> js_finite (dPct c)"
proof -
  have 1: "Some (zero_rows ! 1) = Some (zero_rows ! 1)" "2 \<le> length zero_rows"
    by (simp_all add: zero_rows_def)
  have 2: "getRefRow Date_getTime zero_rows (Num 86400000) (Num 21600000) = Inr (Some (zero_rows ! 0))"
    by (simp add: zero_rows_def change_defs date_defs)
  have 3: "toCurrencyAt (per_capita_nok (zero_rows ! 1)) NOK (Date_getTime (ts (zero_rows ! 1)))
             (empty_index (Num 10)) (Num 10) = Some (Num 100)"
    by (simp add: zero_rows_def toCurrencyAt_def)
  have 4: "toCurrencyAt (per_capita_nok (zero_rows ! 0)) NOK (Date_getTime (ts (zero_rows ! 0)))
             (empty_index (Num 10)) (Num 10) = Some (Num 0)"
    by (simp add: zero_rows_def toCurrencyAt_def)
  show ?thesis
    using computeChangeCurrency_zero_reference[OF 1 2 3 4] by blast
qed

text \<open>
  Against claim C1 as stated: on these rows the reference resolves, its converted value is
  zero, and the result is not \<^verbatim>\<open>null\<close> but an object whose percentage is \<open>+Infinity\<close>.
\<close>

theorem computeChangeCurrency_zero_reference_counterexample:
  "getRefRow Date_getTime zero_rows (Num 86400000) (Num 21600000) = Inr (Some (zero_rows ! 0)) \<and>
   toCurrencyAt (per_capita_nok (zero_rows ! 0)) NOK (Date_getTime (ts (zero_rows ! 0)))
     (empty_index (Num 10)) (Num 10) = Some (Num 0) \<and>
   computeChangeCurrency Date_getTime zero_rows (Some (zero_rows ! 1)) (Num 86400000) (Num 21600000)
     NOK (empty_index (Num 10)) (Num 10)
   = Some (Inr (Some \<lparr>dNok = Num 100, dPct = PosInf, since = ''2024-03-01T00:00:00.000Z''\<rparr>))"
  by (simp add: zero_rows_def empty_index_def change_defs fx_defs date_defs)

subsection \<open>Sparse data\<close>

text \<open>
  Claim C9. \<^verbatim>\<open>computeChangeCurrency\<close> returns \<^verbatim>\<open>null\<close> when \<^verbatim>\<open>latest\<close> is absent, when
  the series has fewer than two rows, and when \<^verbatim>\<open>getRefRow\<close> finds no reference row within
  the tolerance; and on no input at all does it throw: the read \<^verbatim>\<open>rows[rows.length - 1].ts\<close>
  of \<^verbatim>\<open>getRefRow\<close> is only reached with two rows or more.
\<close>

theorem computeChangeCurrency_sparse:
  "(latest = None \<or> length rows < 2 \<or> getRefRow getTime rows windowMs toleranceMs = Inr None
      \<longrightarrow> computeChangeCurrency getTime rows latest windowMs toleranceMs cur fxIdx envFallback
            = Some (Inr None)) \<and>
   computeChangeCurrency getTime rows latest windowMs toleranceMs cur fxIdx envFallback
     \<noteq> Some (Inl e)"
proof -
  have "length rows < 2 \<or> rows \<noteq> []" by (cases rows) auto
  then show ?thesis
    by (auto simp add: computeChangeCurrency_def getRefRow_def Let_def
             split: option.splits sum.splits bind_splits)
qed

text \<open>
  The three conditions at concrete inputs: no latest row on the empty series, a series of
  one row, and rows at 0 and 100 minutes, where the 15 minute window with its tolerance of
  30 minutes finds the only older row 85 minutes from the target.
\<close>

theorem computeChangeCurrency_sparse_witness:
  "computeChangeCurrency Date_getTime [] None (Num 900000) (Num 1800000) USD
     (empty_index (Num 10)) (Num 10) = Some (Inr None) \<and>
   computeChangeCurrency Date_getTime [gap_rows ! 0] (Some (gap_rows ! 0)) (Num 900000)
     (Num 1800000) USD (empty_index (Num 10)) (Num 10) = Some (Inr None) \<and>
   getRefRow Date_getTime gap_rows (Num 900000) (Num 1800000) = Inr None \<and>
   computeChangeCurrency Date_getTime gap_rows (Some (gap_rows ! 1)) (Num 900000) (Num 1800000)
     USD (empty_index (Num 10)) (Num 10) = Some (Inr None)"
proof -
  have g: "getRefRow Date_getTime gap_rows (Num 900000) (Num 1800000) = Inr None"
    by (simp add: gap_rows_def change_defs date_defs)
  show ?thesis
    using g
      computeChangeCurrency_sparse[of None "[]" Date_getTime "Num 900000" "Num 1800000" USD
        "empty_index (Num 10)" "Num 10" TypeError]
      computeChangeCurrency_sparse[of "Some (gap_rows ! 0)" "[gap_rows ! 0]" Date_getTime
        "Num 900000" "Num 1800000" USD "empty_index (Num 10)" "Num 10" TypeError]
      computeChangeCurrency_sparse[of "Some (gap_rows ! 1)" gap_rows Date_getTime
        "Num 900000" "Num 1800000" USD "empty_index (Num 10)" "Num 10" TypeError]
    by simp
qed

subsection \<open>The formula\<close>

lemma scenario_index:
  "buildFxIndex Date_getTime String_localeCompare scenario_fx (Num 10) =
     \<lparr>datesMs = [Num 0], rates = [Num 10], lastDateMs = Some (Num 0), lastRate = Some (Num 10)\<rparr>"
  by (simp add: scenario_fx_def fx_defs date_defs)

lemma drift_index:
  "buildFxIndex Date_getTime String_localeCompare drift_fx (Num 10) =
     \<lparr>datesMs = [Num 0, Num 86400000], rates = [Num 10, Num 11],
      lastDateMs = Some (Num 86400000), lastRate = Some (Num 11)\<rparr>"
  by (simp add: drift_fx_def fx_defs date_defs)

lemma scenario_times:
  "Date_getTime ''1970-01-01T00:00:00.000Z'' = Num 0"
  "Date_getTime ''1970-01-02T00:00:00.000Z'' = Num 86400000"
  by (simp_all add: date_defs)

lemma scenario_ref:
  "getRefRow Date_getTime scenario_rows (Num 86400000) (Num 21600000) = Inr (Some (scenario_rows ! 0))"
  by (simp add: scenario_rows_def change_defs scenario_times)

text \<open>
  Claim C2. When the reference row resolves, \<^verbatim>\<open>computeChangeCurrency\<close> converts the latest
  per-capita value at the instant of the latest row and the reference per-capita value at
  the instant of the reference row, and returns \<^verbatim>\<open>dNok = latestPer - refPer\<close> and
  \<^verbatim>\<open>dPct = (dNok / refPer) * 100\<close>. In the scenario of the specification the 24 hour change
  in the foreign currency is 5000, which is 10 per cent. With a rate of 10 at the reference
  instant and of 11 at the latest instant the same rows give no change at all: 500000 / 10
  and 550000 / 11 are both 50000, each value converted at its own instant.
\<close>

theorem computeChangeCurrency_formula:
  "(latest = Some l \<and> 2 \<le> length rows \<and>
    getRefRow getTime rows windowMs toleranceMs = Inr (Some ref) \<and>
    toCurrencyAt (per_capita_nok l) cur (getTime (ts l)) fxIdx envFallback = Some lp \<and>
    toCurrencyAt (per_capita_nok ref) cur (getTime (ts ref)) fxIdx envFallback = Some rp
    \<longrightarrow> computeChangeCurrency getTime rows latest windowMs toleranceMs cur fxIdx envFallback
          = Some (Inr (Some \<lparr>dNok = js_sub lp rp,
                             dPct = js_mul (js_div (js_sub lp rp) rp) (Num 100),
                             since = ts ref\<rparr>))) \<and>
   computeChangeCurrency Date_getTime scenario_rows (Some (scenario_rows ! 1)) (Num 86400000)
     (Num 21600000) USD (buildFxIndex Date_getTime String_localeCompare scenario_fx (Num 10)) (Num 10)
     = Some (Inr (Some \<lparr>dNok = Num 5000, dPct = Num 10, since = ''1970-01-01T00:00:00.000Z''\<rparr>)) \<and>
   computeChangeCurrency Date_getTime scenario_rows (Some (scenario_rows ! 1)) (Num 86400000)
     (Num 21600000) USD (buildFxIndex Date_getTime String_localeCompare drift_fx (Num 10)) (Num 10)
     = Some (Inr (Some \<lparr>dNok = Num 0, dPct = Num 0, since = ''1970-01-01T00:00:00.000Z''\<rparr>))"
proof (intro conjI impI)
  assume "latest = Some l \<and> 2 \<le> length rows \<and>
    getRefRow getTime rows windowMs toleranceMs = Inr (Some ref) \<and>
    toCurrencyAt (per_capita_nok l) cur (getTime (ts l)) fxIdx envFallback = Some lp \<and>
    toCurrencyAt (per_capita_nok ref) cur (getTime (ts ref)) fxIdx envFallback = Some rp"
  then show "computeChangeCurrency getTime rows latest windowMs toleranceMs cur fxIdx envFallback
          = Some (Inr (Some \<lparr>dNok = js_sub lp rp,
                             dPct = js_mul (js_div (js_sub lp rp) rp) (Num 100),
                             since = ts ref\<rparr>))"
    using computeChangeCurrency_resolved[of latest l rows getTime windowMs toleranceMs ref cur
        fxIdx envFallback lp rp] by blast
next
  have l: "toCurrencyAt (per_capita_nok (scenario_rows ! 1)) USD (Date_getTime (ts (scenario_rows ! 1)))
          (buildFxIndex Date_getTime String_localeCompare scenario_fx (Num 10)) (Num 10) = Some (Num 55000)"
    by (simp add: scenario_index scenario_rows_def scenario_times toCurrencyAt_def getUsdNokAt_def
        findFxIdxAtOrBefore_def findFx_loop.simps js_shr1_def toInt32_def js_at_def)
  have r: "toCurrencyAt (per_capita_nok (scenario_rows ! 0)) USD (Date_getTime (ts (scenario_rows ! 0)))
          (buildFxIndex Date_getTime String_localeCompare scenario_fx (Num 10)) (Num 10) = Some (Num 50000)"
    by (simp add: scenario_index scenario_rows_def scenario_times toCurrencyAt_def getUsdNokAt_def
        findFxIdxAtOrBefore_def findFx_loop.simps js_shr1_def toInt32_def js_at_def)
  have "2 \<le> length scenario_rows" by (simp add: scenario_rows_def)
  from computeChangeCurrency_resolved[OF refl this scenario_ref l r]
  show "computeChangeCurrency Date_getTime scenario_rows (Some (scenario_rows ! 1)) (Num 86400000)
     (Num 21600000) USD (buildFxIndex Date_getTime String_localeCompare scenario_fx (Num 10)) (Num 10)
     = Some (Inr (Some \<lparr>dNok = Num 5000, dPct = Num 10, since = ''1970-01-01T00:00:00.000Z''\<rparr>))"
    by (simp add: js_sub_def scenario_rows_def)
next
  have l: "toCurrencyAt (per_capita_nok (scenario_rows ! 1)) USD (Date_getTime (ts (scenario_rows ! 1)))
          (buildFxIndex Date_getTime String_localeCompare drift_fx (Num 10)) (Num 10) = Some (Num 50000)"
    by (simp add: drift_index scenario_rows_def scenario_times toCurrencyAt_def getUsdNokAt_def
        findFxIdxAtOrBefore_def findFx_loop.simps js_shr1_def toInt32_def js_at_def)
  have r: "toCurrencyAt (per_capita_nok (scenario_rows ! 0)) USD (Date_getTime (ts (scenario_rows ! 0)))
          (buildFxIndex Date_getTime String_localeCompare drift_fx (Num 10)) (Num 10) = Some (Num 50000)"
    by (simp add: drift_index scenario_rows_def scenario_times toCurrencyAt_def getUsdNokAt_def
        findFxIdxAtOrBefore_def findFx_loop.simps js_shr1_def toInt32_def js_at_def)
  have "2 \<le> length scenario_rows" by (simp add: scenario_rows_def)
  from computeChangeCurrency_resolved[OF refl this scenario_ref l r]
  show "computeChangeCurrency Date_getTime scenario_rows (Some (scenario_rows ! 1)) (Num 86400000)
     (Num 21600000) USD (buildFxIndex Date_getTime String_localeCompare drift_fx (Num 10)) (Num 10)
     = Some (Inr (Some \<lparr>dNok = Num 0, dPct = Num 0, since = ''1970-01-01T00:00:00.000Z''\<rparr>))"
    by (simp add: js_sub_def scenario_rows_def)
qed

text \<open>
  The general statement at the scenario: both conversions return, 55000 for the latest row
  and 50000 for the reference row, and the result is built from these two values.
\<close>

theorem computeChangeCurrency_formula_witness:
  "toCurrencyAt (Num 550000) USD (Num 86400000)
     (buildFxIndex Date_getTime String_localeCompare scenario_fx (Num 10)) (Num 10) = Some (Num 55000) \<and>
   toCurrencyAt (Num 500000) USD (Num 0)
     (buildFxIndex Date_getTime String_localeCompare scenario_fx (Num 10)) (Num 10) = Some (Num 50000) \<and>
   computeChangeCurrency Date_getTime scenario_rows (Some (scenario_rows ! 1)) (Num 86400000)
     (Num 21600000) USD (buildFxIndex Date_getTime String_localeCompare scenario_fx (Num 10)) (Num 10)
     = Some (Inr (Some \<lparr>dNok = js_sub (Num 55000) (Num 50000),
                        dPct = js_mul (js_div (js_sub (Num 55000) (Num 50000)) (Num 50000)) (Num 100),
                        since = ''1970-01-01T00:00:00.000Z''\<rparr>))"
proof -
  have l: "toCurrencyAt (Num 550000) USD (Num 86400000)
     (buildFxIndex Date_getTime String_localeCompare scenario_fx (Num 10)) (Num 10) = Some (Num 55000)"
    by (simp add: scenario_index toCurrencyAt_def getUsdNokAt_def
        findFxIdxAtOrBefore_def findFx_loop.simps js_shr1_def toInt32_def js_at_def)
  have r: "toCurrencyAt (Num 500000) USD (Num 0)
     (buildFxIndex Date_getTime String_localeCompare scenario_fx (Num 10)) (Num 10) = Some (Num 50000)"
    by (simp add: scenario_index toCurrencyAt_def getUsdNokAt_def
        findFxIdxAtOrBefore_def findFx_loop.simps js_shr1_def toInt32_def js_at_def)
  have f: "ts (scenario_rows ! 1) = ''1970-01-02T00:00:00.000Z''" "per_capita_nok (scenario_rows ! 1) = Num 550000"
     "ts (scenario_rows ! 0) = ''1970-01-01T00:00:00.000Z''" "per_capita_nok (scenario_rows ! 0) = Num 500000"
     "2 \<le> length scenario_rows"
    by (simp_all add: scenario_rows_def)
  show ?thesis
    using l r computeChangeCurrency_formula[of "Some (scenario_rows ! 1)" "scenario_rows ! 1"
        scenario_rows Date_getTime "Num 86400000" "Num 21600000" "scenario_rows ! 0" USD
        "buildFxIndex Date_getTime String_localeCompare scenario_fx (Num 10)" "Num 10"
        "Num 55000" "Num 50000"]
    by (simp add: f scenario_times scenario_ref js_sub_def)
qed

section \<open>Building the index\<close>

subsection \<open>The sort and the fields of the index\<close>

lemma mset_insort_cmp: "mset (insort_cmp cmp x xs) = add_mset x (mset xs)"
  by (induction xs) auto

lemma mset_sort_cmp: "mset (sort_cmp cmp xs) = mset xs"
  by (induction xs) (auto simp add: sort_cmp_def mset_insort_cmp)

lemma set_sort_cmp: "set (sort_cmp cmp xs) = set xs"
  using mset_sort_cmp[of cmp xs] by (metis set_mset_mset)

lemma length_sort_cmp: "length (sort_cmp cmp xs) = length xs"
  using mset_sort_cmp[of cmp xs] by (metis size_mset)

lemma sort_cmp_Nil_iff: "sort_cmp cmp xs = [] \<longleftrightarrow> xs = []"
  using length_sort_cmp[of cmp xs] by (metis length_0_conv)

lemma buildFxIndex_fields:
  "datesMs (buildFxIndex getTime localeCompare fxRows envFallback)
     = map (\<lambda>r. getTime (the (date r))) (fxClean localeCompare fxRows)"
  "rates (buildFxIndex getTime localeCompare fxRows envFallback)
     = map (\<lambda>r. the (usdnok r)) (fxClean localeCompare fxRows)"
  by (simp_all add: buildFxIndex_def Let_def)

lemma buildFxIndex_last:
  assumes "filter fxKeep fxRows \<noteq> []"
  shows "lastDateMs (buildFxIndex getTime localeCompare fxRows envFallback)
           = Some (last (datesMs (buildFxIndex getTime localeCompare fxRows envFallback)))"
    and "lastRate (buildFxIndex getTime localeCompare fxRows envFallback)
           = Some (last (rates (buildFxIndex getTime localeCompare fxRows envFallback)))"
proof -
  have ne: "fxClean localeCompare fxRows \<noteq> []"
    using assms by (simp add: fxClean_def sort_cmp_Nil_iff)
  have at_last: "js_at (map f xs) (int (length xs) - 1) = last (map f xs)"
    if "xs \<noteq> []" for xs :: "FxRow list" and f
  proof -
    have "nat (int (length xs) - 1) = length xs - 1" by simp
    then show ?thesis using that by (simp add: js_at_def last_conv_nth)
  qed
  show "lastDateMs (buildFxIndex getTime localeCompare fxRows envFallback)
           = Some (last (datesMs (buildFxIndex getTime localeCompare fxRows envFallback)))"
    using ne by (simp add: buildFxIndex_def Let_def at_last)
  show "lastRate (buildFxIndex getTime localeCompare fxRows envFallback)
           = Some (last (rates (buildFxIndex getTime localeCompare fxRows envFallback)))"
    using ne by (simp add: buildFxIndex_def Let_def at_last)
qed

lemma fxKeep_rate: "fxKeep r \<Longrightarrow> js_lt (Num 0) (the (usdnok r))"
  by (auto simp add: fxKeep_def split: option.splits)

lemma js_pos_iff: "js_lt (Num 0) n \<longleftrightarrow> n = PosInf \<or> (\<exists>x. n = Num x \<and> 0 < x)"
  by (cases n) auto

subsection \<open>No row passes the filter\<close>

text \<open>
  Claim C5, as the source has it. When no row passes the filter (the empty collection
  included), \<^verbatim>\<open>buildFxIndex\<close> returns \<^verbatim>\<open>{ datesMs: [], rates: [], lastRate: envFallback }\<close>:
  both arrays are empty and \<^verbatim>\<open>lastDateMs\<close> is absent, but \<^verbatim>\<open>lastRate\<close> is the fallback rate.
\<close>

theorem buildFxIndex_nothing_kept:
  assumes "filter fxKeep fxRows = []"
  shows "buildFxIndex getTime localeCompare fxRows envFallback =
           \<lparr>datesMs = [], rates = [], lastDateMs = None, lastRate = Some envFallback\<rparr>"
  using assms by (simp add: buildFxIndex_def fxClean_def sort_cmp_def)

text \<open>The theorem at seven rows, each removed by the filter for a reason of its own.\<close>

theorem buildFxIndex_nothing_kept_witness:
  "filter fxKeep rejected_fx = [] \<and>
   buildFxIndex Date_getTime String_localeCompare rejected_fx (Num 10) =
     \<lparr>datesMs = [], rates = [], lastDateMs = None, lastRate = Some (Num 10)\<rparr>"
proof -
  have h: "filter fxKeep rejected_fx = []" by (simp add: rejected_fx_def fxKeep_def)
  show ?thesis
    using h buildFxIndex_nothing_kept[OF h, of Date_getTime String_localeCompare "Num 10"] by simp
qed

text \<open>
  Against claim C5 as stated: on the empty collection \<^verbatim>\<open>lastRate\<close> is not absent, it is the
  fallback 10.
\<close>

theorem buildFxIndex_nothing_kept_counterexample:
  "filter fxKeep [] = [] \<and>
   lastRate (buildFxIndex Date_getTime String_localeCompare [] (Num 10)) = Some (Num 10) \<and>
   lastRate (buildFxIndex Date_getTime String_localeCompare [] (Num 10)) \<noteq> None"
  by (simp add: buildFxIndex_def fxClean_def sort_cmp_def)

subsection \<open>What the filter keeps\<close>

text \<open>
  Claim C6, as the source has it. The entries of the index are, with their multiplicities,
  the (date, rate) pairs of the rows that pass the filter, and a row passes the filter
  exactly when its rate is a number greater than zero and its date is a non-empty string.
  So a rate that is missing, not a number, \<open>NaN\<close>, zero, negative or \<open>-Infinity\<close> is removed,
  and so is a missing or empty date; the rate \<open>+Infinity\<close> is greater than zero and is kept.
\<close>

theorem buildFxIndex_filter:
  "mset (zip (datesMs (buildFxIndex getTime localeCompare fxRows envFallback))
             (rates (buildFxIndex getTime localeCompare fxRows envFallback)))
     = image_mset (\<lambda>r. (getTime (the (date r)), the (usdnok r))) (filter_mset fxKeep (mset fxRows)) \<and>
   (fxKeep r \<longleftrightarrow>
      (\<exists>n d. usdnok r = Some n \<and> date r = Some d \<and> d \<noteq> [] \<and>
             (n = PosInf \<or> (\<exists>x. n = Num x \<and> 0 < x))))"
proof
  let ?clean = "fxClean localeCompare fxRows"
  have "zip (map (\<lambda>r. getTime (the (date r))) ?clean) (map (\<lambda>r. the (usdnok r)) ?clean)
          = map (\<lambda>r. (getTime (the (date r)), the (usdnok r))) ?clean"
    by (simp add: zip_map_map zip_same_conv_map)
  moreover have "mset ?clean = filter_mset fxKeep (mset fxRows)"
    by (simp add: fxClean_def mset_sort_cmp)
  ultimately show "mset (zip (datesMs (buildFxIndex getTime localeCompare fxRows envFallback))
             (rates (buildFxIndex getTime localeCompare fxRows envFallback)))
     = image_mset (\<lambda>r. (getTime (the (date r)), the (usdnok r))) (filter_mset fxKeep (mset fxRows))"
    by (simp add: buildFxIndex_fields)
next
  show "fxKeep r \<longleftrightarrow>
      (\<exists>n d. usdnok r = Some n \<and> date r = Some d \<and> d \<noteq> [] \<and>
             (n = PosInf \<or> (\<exists>x. n = Num x \<and> 0 < x)))"
    by (auto simp add: fxKeep_def js_pos_iff split: option.splits)
qed

text \<open>
  The theorem at the seven rejected rows followed by the two kept ones: the index has the
  two entries of the kept rows.
\<close>

theorem buildFxIndex_filter_witness:
  "mset (zip (datesMs (buildFxIndex Date_getTime String_localeCompare (rejected_fx @ mixed_fx) (Num 10)))
             (rates (buildFxIndex Date_getTime String_localeCompare (rejected_fx @ mixed_fx) (Num 10))))
     = {#(Num 172800000, PosInf), (Num 86400000, Num 10)#} \<and>
   fxKeep (mixed_fx ! 0) \<and> \<not> fxKeep (rejected_fx ! 0)"
  using buildFxIndex_filter[of Date_getTime String_localeCompare "rejected_fx @ mixed_fx" "Num 10"
          "mixed_fx ! 0"]
        buildFxIndex_filter[of Date_getTime String_localeCompare "rejected_fx @ mixed_fx" "Num 10"
          "rejected_fx ! 0"]
  by (simp add: rejected_fx_def mixed_fx_def fxKeep_def date_defs)

text \<open>
  Against claim C6 as stated: a row whose rate is \<open>+Infinity\<close>, which is not finite, passes
  the filter and its rate is stored in the index.
\<close>

theorem buildFxIndex_filter_counterexample:
  "\<not> js_finite PosInf \<and>
   buildFxIndex Date_getTime String_localeCompare mixed_fx (Num 10) =
     \<lparr>datesMs = [Num 86400000, Num 172800000], rates = [Num 10, PosInf],
      lastDateMs = Some (Num 172800000), lastRate = Some PosInf\<rparr>"
  by (simp add: mixed_fx_def js_finite_def fx_defs date_defs)

section \<open>Looking a rate up\<close>

lemma getUsdNokAt_in_rates:
  assumes "length (datesMs idx) \<le> 2 ^ 30" "length (rates idx) = length (datesMs idx)"
  shows "\<exists>rate. getUsdNokAt t idx fb = Some rate \<and> (rate = fb \<or> rate \<in> set (rates idx))"
proof -
  obtain k where k: "findFxIdxAtOrBefore t idx = Some k" "- 1 \<le> k" "k < int (length (datesMs idx))"
    using findFxIdxAtOrBefore_returns[OF assms(1)] by blast
  show ?thesis
  proof (cases "0 \<le> k")
    case True
    then have "nat k < length (rates idx)" "k < int (length (rates idx))"
      using k(3) assms(2) by linarith+
    then have "js_at (rates idx) k \<in> set (rates idx)"
      using True by (simp add: js_at_def)
    then show ?thesis using k(1) True by (simp add: getUsdNokAt_def)
  next
    case False
    then show ?thesis using k(1) by (simp add: getUsdNokAt_def)
  qed
qed

lemma js_pos_nonzero: "js_lt (Num 0) x \<Longrightarrow> x \<noteq> Num 0"
  by auto

subsection \<open>The rate at or before an instant\<close>

text \<open>
  Claim C3. Let the index be as \<^verbatim>\<open>buildFxIndex\<close> makes it: dates in ascending order, as many
  rates as dates (and at most \<open>2 ^ 30\<close> of them, so that the search ends). If \<open>i\<close> is the
  greatest position whose date is not after the instant, \<^verbatim>\<open>getUsdNokAt\<close> returns the rate at
  \<open>i\<close>, and no date that qualifies is greater than the date at \<open>i\<close>. If no date qualifies,
  it returns the fallback rate. For an index built from a collection of which the filter
  keeps nothing, the empty collection included, it returns the fallback at every instant.
\<close>

theorem getUsdNokAt_at_or_before:
  "(sorted_wrt js_le (datesMs idx) \<and> length (rates idx) = length (datesMs idx) \<and>
    length (datesMs idx) \<le> 2 ^ 30 \<longrightarrow>
      (\<forall>i<length (datesMs idx).
         js_le (datesMs idx ! i) t \<and>
         (\<forall>j<length (datesMs idx). js_le (datesMs idx ! j) t \<longrightarrow> j \<le> i) \<longrightarrow>
           getUsdNokAt t idx fb = Some (rates idx ! i) \<and>
           (\<forall>j<length (datesMs idx).
              js_le (datesMs idx ! j) t \<longrightarrow> js_le (datesMs idx ! j) (datesMs idx ! i))) \<and>
      ((\<forall>i<length (datesMs idx). \<not> js_le (datesMs idx ! i) t) \<longrightarrow>
           getUsdNokAt t idx fb = Some fb)) \<and>
   (filter fxKeep fxRows = [] \<longrightarrow>
      getUsdNokAt t (buildFxIndex getTime localeCompare fxRows envFallback) fb = Some fb)"
proof (intro conjI impI allI)
  fix i
  assume wf: "sorted_wrt js_le (datesMs idx) \<and> length (rates idx) = length (datesMs idx) \<and>
    length (datesMs idx) \<le> 2 ^ 30"
  assume i: "i < length (datesMs idx)"
  assume q: "js_le (datesMs idx ! i) t \<and>
         (\<forall>j<length (datesMs idx). js_le (datesMs idx ! j) t \<longrightarrow> j \<le> i)"
  obtain k where k: "findFxIdxAtOrBefore t idx = Some k" "- 1 \<le> k" "k < int (length (datesMs idx))"
     "\<forall>j. 0 \<le> j \<and> j \<le> k \<longrightarrow> js_le (js_at (datesMs idx) j) t"
     "\<forall>j. k < j \<and> j < int (length (datesMs idx)) \<longrightarrow> \<not> js_le (js_at (datesMs idx) j) t"
    using findFxIdxAtOrBefore_sorted[of idx t] wf by blast
  have at_i: "js_at (datesMs idx) (int i) = datesMs idx ! i" using i by (simp add: js_at_def)
  have "\<not> k < int i" using k(5) i q at_i by auto
  moreover have "\<not> int i < k"
  proof
    assume lt: "int i < k"
    then have "js_le (js_at (datesMs idx) k) t" using k(4) by auto
    moreover have "js_at (datesMs idx) k = datesMs idx ! nat k" "nat k < length (datesMs idx)"
      using lt k(3) by (simp_all add: js_at_def)
    ultimately have "nat k \<le> i" using q by auto
    then show False using lt by linarith
  qed
  ultimately have "k = int i" by linarith
  then show "getUsdNokAt t idx fb = Some (rates idx ! i)"
    using k(1) i wf by (simp add: getUsdNokAt_def js_at_def)
  fix j
  assume j: "j < length (datesMs idx)" and jq: "js_le (datesMs idx ! j) t"
  then have "j \<le> i" using q by blast
  show "js_le (datesMs idx ! j) (datesMs idx ! i)"
  proof (cases "j = i")
    case True
    then show ?thesis using q js_le_refl_left by blast
  next
    case False
    then have "j < i" using \<open>j \<le> i\<close> by simp
    then show ?thesis using wf i by (simp add: sorted_wrt_iff_nth_less)
  qed
next
  assume wf: "sorted_wrt js_le (datesMs idx) \<and> length (rates idx) = length (datesMs idx) \<and>
    length (datesMs idx) \<le> 2 ^ 30"
  assume none: "\<forall>i<length (datesMs idx). \<not> js_le (datesMs idx ! i) t"
  obtain k where k: "findFxIdxAtOrBefore t idx = Some k" "- 1 \<le> k" "k < int (length (datesMs idx))"
     "0 \<le> k \<longrightarrow> js_le (js_at (datesMs idx) k) t"
    using findFxIdxAtOrBefore_returns[of idx t] wf by blast
  have "\<not> 0 \<le> k"
  proof
    assume "0 \<le> k"
    then have "js_le (datesMs idx ! nat k) t" "nat k < length (datesMs idx)"
      using k(3,4) by (simp_all add: js_at_def)
    then show False using none by blast
  qed
  then show "getUsdNokAt t idx fb = Some fb" using k(1) by (simp add: getUsdNokAt_def)
next
  assume "filter fxKeep fxRows = []"
  then have "datesMs (buildFxIndex getTime localeCompare fxRows envFallback) = []"
    by (simp add: buildFxIndex_fields fxClean_def sort_cmp_def)
  then show "getUsdNokAt t (buildFxIndex getTime localeCompare fxRows envFallback) fb = Some fb"
    by (simp add: getUsdNokAt_def findFxIdxAtOrBefore_def)
qed

text \<open>
  The theorem at the index of three days: an instant in the second day has the rate 11, an
  instant before the epoch has the fallback, and so has every instant on an index built from
  rejected rows only.
\<close>

theorem getUsdNokAt_at_or_before_witness:
  "sorted_wrt js_le (datesMs step_index) \<and> length (rates step_index) = length (datesMs step_index) \<and>
   length (datesMs step_index) \<le> 2 ^ 30 \<and>
   getUsdNokAt (Num 100000000) step_index (Num 9) = Some (Num 11) \<and>
   getUsdNokAt (Num (- 1)) step_index (Num 9) = Some (Num 9) \<and>
   getUsdNokAt (Num 100000000) (buildFxIndex Date_getTime String_localeCompare rejected_fx (Num 9))
     (Num 9) = Some (Num 9)"
proof -
  have wf: "sorted_wrt js_le (datesMs step_index) \<and>
      length (rates step_index) = length (datesMs step_index) \<and> length (datesMs step_index) \<le> 2 ^ 30"
    by (simp add: step_index_def)
  have f: "filter fxKeep rejected_fx = []" by (simp add: rejected_fx_def fxKeep_def)
  have len: "length (datesMs step_index) = Suc (Suc (Suc 0))" by (simp add: step_index_def)
  have a: "getUsdNokAt (Num 100000000) step_index (Num 9) = Some (Num 11)"
    using wf getUsdNokAt_at_or_before[of step_index "Num 100000000" "Num 9" rejected_fx
        Date_getTime String_localeCompare "Num 9"]
    by (simp add: len All_less_Suc) (simp add: step_index_def)
  have b: "getUsdNokAt (Num (- 1)) step_index (Num 9) = Some (Num 9)"
    using wf getUsdNokAt_at_or_before[of step_index "Num (- 1)" "Num 9" rejected_fx
        Date_getTime String_localeCompare "Num 9"]
    by (simp add: len All_less_Suc) (simp add: step_index_def)
  have c: "getUsdNokAt (Num 100000000) (buildFxIndex Date_getTime String_localeCompare rejected_fx (Num 9))
     (Num 9) = Some (Num 9)"
    using f getUsdNokAt_at_or_before[of step_index "Num 100000000" "Num 9" rejected_fx
        Date_getTime String_localeCompare "Num 9"]
    by simp
  show ?thesis using wf a b c by simp
qed

subsection \<open>No look-ahead\<close>

text \<open>
  Claim C7. On an index with ascending dates, for instants \<open>t1 < t2\<close> the search returns
  positions \<open>i1 \<le> i2\<close>; when a position is chosen for \<open>t1\<close> its date is not after the date
  chosen for \<open>t2\<close>, and a chosen date is never after the instant that was asked for.
\<close>

theorem findFxIdxAtOrBefore_monotone:
  assumes sorted: "sorted_wrt js_le (datesMs idx)" and bound: "length (datesMs idx) \<le> 2 ^ 30"
    and lt: "js_lt t1 t2"
  shows "\<exists>i1 i2. findFxIdxAtOrBefore t1 idx = Some i1 \<and> findFxIdxAtOrBefore t2 idx = Some i2 \<and>
           - 1 \<le> i1 \<and> i1 \<le> i2 \<and> i2 < int (length (datesMs idx)) \<and>
           (0 \<le> i1 \<longrightarrow> js_le (js_at (datesMs idx) i1) (js_at (datesMs idx) i2) \<and>
                        js_le (js_at (datesMs idx) i1) t1) \<and>
           (0 \<le> i2 \<longrightarrow> js_le (js_at (datesMs idx) i2) t2)"
proof -
  obtain i1 where i1: "findFxIdxAtOrBefore t1 idx = Some i1" "- 1 \<le> i1" "i1 < int (length (datesMs idx))"
     "\<forall>j. 0 \<le> j \<and> j \<le> i1 \<longrightarrow> js_le (js_at (datesMs idx) j) t1"
    using findFxIdxAtOrBefore_sorted[OF sorted bound, of t1] by blast
  obtain i2 where i2: "findFxIdxAtOrBefore t2 idx = Some i2" "- 1 \<le> i2" "i2 < int (length (datesMs idx))"
     "\<forall>j. 0 \<le> j \<and> j \<le> i2 \<longrightarrow> js_le (js_at (datesMs idx) j) t2"
     "\<forall>j. i2 < j \<and> j < int (length (datesMs idx)) \<longrightarrow> \<not> js_le (js_at (datesMs idx) j) t2"
    using findFxIdxAtOrBefore_sorted[OF sorted bound, of t2] by blast
  have le: "i1 \<le> i2"
  proof (rule ccontr)
    assume "\<not> i1 \<le> i2"
    then have "i2 < i1" "0 \<le> i1" using i2(2) by linarith+
    then have "js_le (js_at (datesMs idx) i1) t1" using i1(4) by auto
    then have "js_le (js_at (datesMs idx) i1) t2" using lt by (rule js_le_lt_trans)
    then show False using i2(5) \<open>i2 < i1\<close> i1(3) by blast
  qed
  have dates: "js_le (js_at (datesMs idx) i1) (js_at (datesMs idx) i2)" if "0 \<le> i1"
  proof (cases "i1 = i2")
    case True
    have "js_le (js_at (datesMs idx) i1) t1" using i1(4) that by auto
    then show ?thesis using True js_le_refl_left by auto
  next
    case False
    then show ?thesis using le that i2(3) by (intro sorted_js_at[OF sorted]) linarith+
  qed
  show ?thesis using i1 i2 le dates by auto
qed

text \<open>The theorem at the index of three days, for an instant of the first and one of the second day.\<close>

theorem findFxIdxAtOrBefore_monotone_witness:
  "findFxIdxAtOrBefore (Num 50000000) step_index = Some 0 \<and>
   findFxIdxAtOrBefore (Num 100000000) step_index = Some 1 \<and>
   js_le (js_at (datesMs step_index) 0) (js_at (datesMs step_index) 1)"
proof -
  have h: "sorted_wrt js_le (datesMs step_index)" "length (datesMs step_index) \<le> 2 ^ 30"
    "js_lt (Num 50000000) (Num 100000000)"
    by (simp_all add: step_index_def)
  have e: "findFxIdxAtOrBefore (Num 50000000) step_index = Some 0"
    "findFxIdxAtOrBefore (Num 100000000) step_index = Some 1"
    by (simp_all add: step_index_def findFxIdxAtOrBefore_def findFx_loop.simps js_shr1_def
        toInt32_def js_at_def)
  show ?thesis using findFxIdxAtOrBefore_monotone[OF h] e by auto
qed

subsection \<open>The rate is positive\<close>

text \<open>
  Claim C8. With a fallback rate greater than zero, \<^verbatim>\<open>getUsdNokAt\<close> on an index made by
  \<^verbatim>\<open>buildFxIndex\<close> returns, at every instant, a rate greater than zero: the fallback or the
  rate of a row that passed the filter. So the division \<^verbatim>\<open>nok / rate\<close> of \<^verbatim>\<open>toCurrencyAt\<close>
  for the foreign currency never has a zero divisor.
\<close>

theorem getUsdNokAt_positive:
  assumes fb: "js_lt (Num 0) envFallback" and bound: "length fxRows \<le> 2 ^ 30"
  shows "\<exists>rate. getUsdNokAt t (buildFxIndex getTime localeCompare fxRows envFallback) envFallback
                 = Some rate \<and>
               js_lt (Num 0) rate \<and> rate \<noteq> Num 0 \<and>
               (rate = envFallback \<or> (\<exists>r\<in>set fxRows. fxKeep r \<and> usdnok r = Some rate)) \<and>
               toCurrencyAt nok USD t (buildFxIndex getTime localeCompare fxRows envFallback)
                 envFallback = Some (js_div nok rate)"
proof -
  let ?idx = "buildFxIndex getTime localeCompare fxRows envFallback"
  have "length (datesMs ?idx) \<le> length fxRows"
    by (simp add: buildFxIndex_fields fxClean_def length_sort_cmp)
  then have b: "length (datesMs ?idx) \<le> 2 ^ 30" using bound by linarith
  have l: "length (rates ?idx) = length (datesMs ?idx)" by (simp add: buildFxIndex_fields)
  obtain rate where rate: "getUsdNokAt t ?idx envFallback = Some rate"
      "rate = envFallback \<or> rate \<in> set (rates ?idx)"
    using getUsdNokAt_in_rates[OF b l] by blast
  have kept: "\<exists>r\<in>set fxRows. fxKeep r \<and> usdnok r = Some rate" if "rate \<in> set (rates ?idx)"
  proof -
    from that obtain r where "r \<in> set (fxClean localeCompare fxRows)" "rate = the (usdnok r)"
      by (auto simp add: buildFxIndex_fields)
    then have "r \<in> set fxRows" "fxKeep r" "rate = the (usdnok r)"
      by (simp_all add: fxClean_def set_sort_cmp)
    moreover from this have "usdnok r = Some rate"
      by (auto simp add: fxKeep_def split: option.splits)
    ultimately show ?thesis by blast
  qed
  have pos: "js_lt (Num 0) rate"
  proof (cases "rate = envFallback")
    case True then show ?thesis using fb by simp
  next
    case False
    then obtain r where "fxKeep r" "usdnok r = Some rate" using rate(2) kept by blast
    then show ?thesis by (auto simp add: fxKeep_def)
  qed
  have "toCurrencyAt nok USD t ?idx envFallback = Some (js_div nok rate)"
    using rate(1) by (simp add: toCurrencyAt_def)
  then show ?thesis using rate kept pos js_pos_nonzero by blast
qed

text \<open>The theorem at the two records of 10 and 11, for the first instant of the second day.\<close>

theorem getUsdNokAt_positive_witness:
  "js_lt (Num 0) (Num 10) \<and> length drift_fx \<le> 2 ^ 30 \<and>
   getUsdNokAt (Num 86400000) (buildFxIndex Date_getTime String_localeCompare drift_fx (Num 10)) (Num 10)
     = Some (Num 11) \<and>
   toCurrencyAt (Num 550000) USD (Num 86400000)
     (buildFxIndex Date_getTime String_localeCompare drift_fx (Num 10)) (Num 10) = Some (Num 50000)"
proof -
  have h: "js_lt (Num 0) (Num 10)" "length drift_fx \<le> 2 ^ 30"
    by (simp_all add: drift_fx_def)
  have e: "getUsdNokAt (Num 86400000) (buildFxIndex Date_getTime String_localeCompare drift_fx (Num 10)) (Num 10)
     = Some (Num 11)"
    by (simp add: drift_index getUsdNokAt_def findFxIdxAtOrBefore_def findFx_loop.simps js_shr1_def
        toInt32_def js_at_def)
  show ?thesis
    using h e getUsdNokAt_positive[OF h, of "Num 86400000" Date_getTime String_localeCompare "Num 550000"]
    by auto
qed

section \<open>The reference row\<close>

lemma getRefRow_loop_none:
  "\<forall>i<n. \<not> js_le (getTime (ts (rows ! i))) targetTs \<Longrightarrow>
   getRefRow_loop getTime rows targetTs toleranceMs n = None"
  by (induction n) (simp_all add: Let_def)

lemma getRefRow_loop_candidate:
  "i < n \<Longrightarrow> js_le (getTime (ts (rows ! i))) targetTs \<Longrightarrow>
   \<forall>j<n. i < j \<longrightarrow> \<not> js_le (getTime (ts (rows ! j))) targetTs \<Longrightarrow>
   getRefRow_loop getTime rows targetTs toleranceMs n =
     (if js_le (js_sub targetTs (getTime (ts (rows ! i)))) toleranceMs then Some (rows ! i) else None)"
proof (induction n)
  case 0
  then show ?case by simp
next
  case (Suc n)
  show ?case
  proof (cases "i = n")
    case True
    then show ?thesis using Suc.prems(2) by (simp add: Let_def)
  next
    case False
    then have "i < n" using Suc.prems(1) by simp
    moreover have "\<not> js_le (getTime (ts (rows ! n))) targetTs" using Suc.prems(3) \<open>i < n\<close> by simp
    moreover have "\<forall>j<n. i < j \<longrightarrow> \<not> js_le (getTime (ts (rows ! j))) targetTs"
      using Suc.prems(3) by simp
    ultimately show ?thesis using Suc.IH Suc.prems(2) by (simp add: Let_def)
  qed
qed

lemma ref_rows_times:
  "Date_getTime ''2024-03-01T00:00:00.000Z'' = Num 1709251200000"
  "Date_getTime ''2024-03-01T01:10:00.000Z'' = Num 1709255400000"
  "Date_getTime ''2024-03-01T01:40:00.000Z'' = Num 1709257200000"
  by (simp_all add: date_defs)

text \<open>
  Claim C4, as the source has it. On the empty series \<^verbatim>\<open>getRefRow\<close> throws: the test for
  fewer than two rows is made by its caller \<^verbatim>\<open>computeChangeCurrency\<close>, not by \<^verbatim>\<open>getRefRow\<close>.
  On a non-empty series, with \<open>targetTs\<close> the timestamp of the last row minus the lookback:
  the candidate is the row at the greatest position whose timestamp is not after
  \<open>targetTs\<close> (in a series in ascending order of time, a row whose timestamp no other
  qualifying row exceeds); the candidate is returned if and only if \<open>targetTs\<close> minus its
  timestamp is within the tolerance, and \<^verbatim>\<open>null\<close> otherwise; \<^verbatim>\<open>null\<close> is returned when every
  row is newer than \<open>targetTs\<close>. The subtraction that gives \<open>targetTs\<close> is left as it stands:
  nothing is said of how far below the last timestamp it falls.
\<close>

theorem getRefRow_candidate:
  "getRefRow getTime [] targetMsAgo toleranceMs = Inl TypeError \<and>
   (rows \<noteq> [] \<longrightarrow>
     (let targetTs = js_sub (getTime (ts (last rows))) targetMsAgo in
      (\<forall>i<length rows.
         js_le (getTime (ts (rows ! i))) targetTs \<and>
         (\<forall>j<length rows. i < j \<longrightarrow> \<not> js_le (getTime (ts (rows ! j))) targetTs) \<longrightarrow>
           getRefRow getTime rows targetMsAgo toleranceMs =
             Inr (if js_le (js_sub targetTs (getTime (ts (rows ! i)))) toleranceMs
                  then Some (rows ! i) else None) \<and>
           (sorted_wrt (\<lambda>a b. js_le (getTime (ts a)) (getTime (ts b))) rows \<longrightarrow>
              (\<forall>j<length rows. js_le (getTime (ts (rows ! j))) targetTs \<longrightarrow>
                 js_le (getTime (ts (rows ! j))) (getTime (ts (rows ! i)))))) \<and>
      ((\<forall>i<length rows. \<not> js_le (getTime (ts (rows ! i))) targetTs) \<longrightarrow>
           getRefRow getTime rows targetMsAgo toleranceMs = Inr None)))"
  unfolding Let_def
proof (intro conjI impI allI)
  show "getRefRow getTime [] targetMsAgo toleranceMs = Inl TypeError"
    by (simp add: getRefRow_def)
next
  fix i
  let ?T = "js_sub (getTime (ts (last rows))) targetMsAgo"
  assume ne: "rows \<noteq> []" and i: "i < length rows"
    and c: "js_le (getTime (ts (rows ! i))) ?T \<and>
            (\<forall>j<length rows. i < j \<longrightarrow> \<not> js_le (getTime (ts (rows ! j))) ?T)"
  show "getRefRow getTime rows targetMsAgo toleranceMs =
          Inr (if js_le (js_sub ?T (getTime (ts (rows ! i)))) toleranceMs then Some (rows ! i) else None)"
    using ne getRefRow_loop_candidate[of i "length rows" getTime rows ?T toleranceMs] i c
    by (simp add: getRefRow_def Let_def)
  fix j
  assume s: "sorted_wrt (\<lambda>a b. js_le (getTime (ts a)) (getTime (ts b))) rows"
    and j: "j < length rows" and jq: "js_le (getTime (ts (rows ! j))) ?T"
  have "\<not> i < j" using c j jq by blast
  show "js_le (getTime (ts (rows ! j))) (getTime (ts (rows ! i)))"
  proof (cases "j = i")
    case True
    then show ?thesis using c js_le_refl_left by blast
  next
    case False
    then have "j < i" using \<open>\<not> i < j\<close> by simp
    then show ?thesis using s i by (simp add: sorted_wrt_iff_nth_less)
  qed
next
  let ?T = "js_sub (getTime (ts (last rows))) targetMsAgo"
  assume ne: "rows \<noteq> []" and "\<forall>i<length rows. \<not> js_le (getTime (ts (rows ! i))) ?T"
  then show "getRefRow getTime rows targetMsAgo toleranceMs = Inr None"
    using getRefRow_loop_none[of "length rows" getTime rows ?T toleranceMs]
    by (simp add: getRefRow_def Let_def)
qed

text \<open>
  The theorem at the rows at 0, 70 and 100 minutes with the 15 minute window: the target is
  at 85 minutes, the candidate is the row at 70 minutes, returned under a tolerance of 30
  minutes and refused under a tolerance of 10 minutes.
\<close>

theorem getRefRow_candidate_witness:
  "ref_rows \<noteq> [] \<and>
   js_le (Date_getTime (ts (ref_rows ! 1))) (js_sub (Date_getTime (ts (last ref_rows))) (Num 900000)) \<and>
   \<not> js_le (Date_getTime (ts (ref_rows ! 2))) (js_sub (Date_getTime (ts (last ref_rows))) (Num 900000)) \<and>
   getRefRow Date_getTime ref_rows (Num 900000) (Num 1800000) = Inr (Some (ref_rows ! 1)) \<and>
   getRefRow Date_getTime ref_rows (Num 900000) (Num 600000) = Inr None"
proof -
  have ne: "ref_rows \<noteq> []" and len: "length ref_rows = Suc (Suc (Suc 0))"
    by (simp_all add: ref_rows_def)
  have f: "ts (ref_rows ! 0) = ''2024-03-01T00:00:00.000Z''"
    "ts (ref_rows ! Suc 0) = ''2024-03-01T01:10:00.000Z''"
    "ts (ref_rows ! Suc (Suc 0)) = ''2024-03-01T01:40:00.000Z''"
    "ts (ref_rows ! 2) = ''2024-03-01T01:40:00.000Z''"
    "ts (last ref_rows) = ''2024-03-01T01:40:00.000Z''"
    by (simp_all add: ref_rows_def)
  have c: "js_le (Date_getTime (ts (ref_rows ! 1))) (js_sub (Date_getTime (ts (last ref_rows))) (Num 900000))"
    "\<not> js_le (Date_getTime (ts (ref_rows ! 2))) (js_sub (Date_getTime (ts (last ref_rows))) (Num 900000))"
    by (simp_all add: f ref_rows_times js_sub_def)
  have a: "getRefRow Date_getTime ref_rows (Num 900000) (Num 1800000) = Inr (Some (ref_rows ! 1))"
    using ne getRefRow_candidate[of Date_getTime "Num 900000" "Num 1800000" ref_rows]
    by (simp add: Let_def len All_less_Suc f ref_rows_times js_sub_def)
  have b: "getRefRow Date_getTime ref_rows (Num 900000) (Num 600000) = Inr None"
    using ne getRefRow_candidate[of Date_getTime "Num 900000" "Num 600000" ref_rows]
    by (simp add: Let_def len All_less_Suc f ref_rows_times js_sub_def)
  show ?thesis using ne c a b by simp
qed

text \<open>
  Against claim C4 as stated, for series of fewer than two rows: on the empty series the
  function throws instead of returning \<^verbatim>\<open>null\<close>, and on a series of one row with a lookback
  of zero it returns that row.
\<close>

theorem getRefRow_candidate_counterexample:
  "getRefRow Date_getTime [] (Num 900000) (Num 1800000) = Inl TypeError \<and>
   getRefRow Date_getTime [] (Num 900000) (Num 1800000) \<noteq> Inr None \<and>
   getRefRow Date_getTime [gap_rows ! 0] (Num 0) (Num 1800000) = Inr (Some (gap_rows ! 0))"
  by (simp add: gap_rows_def getRefRow_def Let_def js_sub_def date_defs)

section \<open>The index is well formed\<close>

subsection \<open>ISO dates as strings and as instants\<close>

lemma digit_val_less: "c < c' \<longleftrightarrow> digit_val c < digit_val c'"
  by (simp add: digit_val_def less_char_def)

lemma digit_val_eq: "c = c' \<longleftrightarrow> digit_val c = digit_val c'"
  by (simp add: digit_val_def)

lemma is_digit_range: "is_digit c \<longleftrightarrow> 0 \<le> digit_val c \<and> digit_val c \<le> 9"
  by (auto simp add: is_digit_def digit_val_def less_eq_char_def)

lemma lex4:
  fixes u1 u2 u3 u4 v1 v2 v3 v4 :: int
  assumes "u1 < v1 \<or> u1 = v1 \<and> (u2 < v2 \<or> u2 = v2 \<and> (u3 < v3 \<or> u3 = v3 \<and> (u4 < v4 \<or> u4 = v4 \<and> R)))"
   "0 \<le> u1 \<and> u1 \<le> 9" "0 \<le> u2 \<and> u2 \<le> 9" "0 \<le> u3 \<and> u3 \<le> 9" "0 \<le> u4 \<and> u4 \<le> 9"
   "0 \<le> v1 \<and> v1 \<le> 9" "0 \<le> v2 \<and> v2 \<le> 9" "0 \<le> v3 \<and> v3 \<le> 9" "0 \<le> v4 \<and> v4 \<le> 9"
 shows "1000 * u1 + 100 * u2 + 10 * u3 + u4 < 1000 * v1 + 100 * v2 + 10 * v3 + v4 \<or>
   1000 * u1 + 100 * u2 + 10 * u3 + u4 = 1000 * v1 + 100 * v2 + 10 * v3 + v4 \<and> R"
  using assms by (elim disjE conjE) simp_all

lemma lex2:
  fixes u1 u2 v1 v2 :: int
  assumes "u1 < v1 \<or> u1 = v1 \<and> (u2 < v2 \<or> u2 = v2 \<and> R)"
   "0 \<le> u1 \<and> u1 \<le> 9" "0 \<le> u2 \<and> u2 \<le> 9" "0 \<le> v1 \<and> v1 \<le> 9" "0 \<le> v2 \<and> v2 \<le> 9"
 shows "10 * u1 + u2 < 10 * v1 + v2 \<or> 10 * u1 + u2 = 10 * v1 + v2 \<and> R"
  using assms by (elim disjE conjE) simp_all

lemma length_10:
  assumes "length s = 10"
  obtains c0 c1 c2 c3 c4 c5 c6 c7 c8 c9 where "s = [c0, c1, c2, c3, c4, c5, c6, c7, c8, c9]"
  using assms by (auto simp add: eval_nat_numeral length_Suc_conv)

lemma isoDate_expand:
  assumes "isoDate s"
  shows "s = [s ! 0, s ! 1, s ! 2, s ! 3, CHR ''-'', s ! 5, s ! 6, CHR ''-'', s ! 8, s ! 9]"
    and "is_digit (s ! 0)" "is_digit (s ! 1)" "is_digit (s ! 2)" "is_digit (s ! 3)"
    and "is_digit (s ! 5)" "is_digit (s ! 6)" "is_digit (s ! 8)" "is_digit (s ! 9)"
proof -
  from assms have "length s = 10" by (simp add: isoDate_def)
  then obtain c0 c1 c2 c3 c4 c5 c6 c7 c8 c9 where s: "s = [c0, c1, c2, c3, c4, c5, c6, c7, c8, c9]"
    by (rule length_10)
  have "isoDate [c0, c1, c2, c3, c4, c5, c6, c7, c8, c9]" using assms unfolding s .
  then have "c4 = CHR ''-''" "c7 = CHR ''-''" "is_digit c0" "is_digit c1" "is_digit c2" "is_digit c3"
    "is_digit c5" "is_digit c6" "is_digit c8" "is_digit c9"
    by (simp_all add: isoDate_def)
  then show "s = [s ! 0, s ! 1, s ! 2, s ! 3, CHR ''-'', s ! 5, s ! 6, CHR ''-'', s ! 8, s ! 9]"
    and "is_digit (s ! 0)" "is_digit (s ! 1)" "is_digit (s ! 2)" "is_digit (s ! 3)"
    and "is_digit (s ! 5)" "is_digit (s ! 6)" "is_digit (s ! 8)" "is_digit (s ! 9)"
    unfolding s by simp_all
qed

lemma iso_fields:
  "isoYear [y1, y2, y3, y4, h1, m1, m2, h2, d1, d2]
     = 1000 * digit_val y1 + 100 * digit_val y2 + 10 * digit_val y3 + digit_val y4"
  "isoMonth [y1, y2, y3, y4, h1, m1, m2, h2, d1, d2] = 10 * digit_val m1 + digit_val m2"
  "isoDay [y1, y2, y3, y4, h1, m1, m2, h2, d1, d2] = 10 * digit_val d1 + digit_val d2"
  by (simp_all add: isoYear_def isoMonth_def isoDay_def digits_val_def)

lemma isoDate_fields:
  assumes "isoDate s"
  shows "isoYear s = 1000 * digit_val (s ! 0) + 100 * digit_val (s ! 1) + 10 * digit_val (s ! 2)
           + digit_val (s ! 3)"
    and "isoMonth s = 10 * digit_val (s ! 5) + digit_val (s ! 6)"
    and "isoDay s = 10 * digit_val (s ! 8) + digit_val (s ! 9)"
proof -
  note e = isoDate_expand(1)[OF assms]
  show "isoYear s = 1000 * digit_val (s ! 0) + 100 * digit_val (s ! 1) + 10 * digit_val (s ! 2)
           + digit_val (s ! 3)"
    by (subst e) (rule iso_fields)
  show "isoMonth s = 10 * digit_val (s ! 5) + digit_val (s ! 6)"
    by (subst e) (rule iso_fields)
  show "isoDay s = 10 * digit_val (s ! 8) + digit_val (s ! 9)"
    by (subst e) (rule iso_fields)
qed

text \<open>The order of two dates as strings is the order of (year, month, day).\<close>

lemma isoDate_le_fields:
  assumes "isoDate a" "isoDate b" "a \<le> b"
  shows "isoYear a < isoYear b \<or>
         isoYear a = isoYear b \<and>
           (isoMonth a < isoMonth b \<or> isoMonth a = isoMonth b \<and> isoDay a \<le> isoDay b)"
proof -
  note ea = isoDate_expand(1)[OF assms(1)] and eb = isoDate_expand(1)[OF assms(2)]
  note ra = isoDate_expand(2-9)[OF assms(1), unfolded is_digit_range]
  note rb = isoDate_expand(2-9)[OF assms(2), unfolded is_digit_range]
  have "[a ! 0, a ! 1, a ! 2, a ! 3, CHR ''-'', a ! 5, a ! 6, CHR ''-'', a ! 8, a ! 9]
          \<le> [b ! 0, b ! 1, b ! 2, b ! 3, CHR ''-'', b ! 5, b ! 6, CHR ''-'', b ! 8, b ! 9]"
    using assms(3) ea eb by simp
  then have le: "digit_val (a ! 0) < digit_val (b ! 0) \<or> digit_val (a ! 0) = digit_val (b ! 0) \<and>
     (digit_val (a ! 1) < digit_val (b ! 1) \<or> digit_val (a ! 1) = digit_val (b ! 1) \<and>
     (digit_val (a ! 2) < digit_val (b ! 2) \<or> digit_val (a ! 2) = digit_val (b ! 2) \<and>
     (digit_val (a ! 3) < digit_val (b ! 3) \<or> digit_val (a ! 3) = digit_val (b ! 3) \<and>
     (digit_val (a ! 5) < digit_val (b ! 5) \<or> digit_val (a ! 5) = digit_val (b ! 5) \<and>
     (digit_val (a ! 6) < digit_val (b ! 6) \<or> digit_val (a ! 6) = digit_val (b ! 6) \<and>
     (digit_val (a ! 8) < digit_val (b ! 8) \<or> digit_val (a ! 8) = digit_val (b ! 8) \<and>
     (digit_val (a ! 9) < digit_val (b ! 9) \<or> digit_val (a ! 9) = digit_val (b ! 9) \<and> True)))))))"
    unfolding Cons_le_Cons digit_val_less digit_val_eq by simp
  note fa = isoDate_fields[OF assms(1)] and fb = isoDate_fields[OF assms(2)]
  have "isoYear a < isoYear b \<or> isoYear a = isoYear b \<and>
     (digit_val (a ! 5) < digit_val (b ! 5) \<or> digit_val (a ! 5) = digit_val (b ! 5) \<and>
     (digit_val (a ! 6) < digit_val (b ! 6) \<or> digit_val (a ! 6) = digit_val (b ! 6) \<and>
     (digit_val (a ! 8) < digit_val (b ! 8) \<or> digit_val (a ! 8) = digit_val (b ! 8) \<and>
     (digit_val (a ! 9) < digit_val (b ! 9) \<or> digit_val (a ! 9) = digit_val (b ! 9) \<and> True))))"
    unfolding fa fb by (rule lex4[OF le ra(1-4) rb(1-4)])
  moreover have "isoMonth a < isoMonth b \<or> isoMonth a = isoMonth b \<and>
     (digit_val (a ! 8) < digit_val (b ! 8) \<or> digit_val (a ! 8) = digit_val (b ! 8) \<and>
     (digit_val (a ! 9) < digit_val (b ! 9) \<or> digit_val (a ! 9) = digit_val (b ! 9) \<and> True))"
    if "digit_val (a ! 5) < digit_val (b ! 5) \<or> digit_val (a ! 5) = digit_val (b ! 5) \<and>
     (digit_val (a ! 6) < digit_val (b ! 6) \<or> digit_val (a ! 6) = digit_val (b ! 6) \<and>
     (digit_val (a ! 8) < digit_val (b ! 8) \<or> digit_val (a ! 8) = digit_val (b ! 8) \<and>
     (digit_val (a ! 9) < digit_val (b ! 9) \<or> digit_val (a ! 9) = digit_val (b ! 9) \<and> True)))"
    unfolding fa fb by (rule lex2[OF that ra(5,6) rb(5,6)])
  moreover have "isoDay a \<le> isoDay b"
    if "digit_val (a ! 8) < digit_val (b ! 8) \<or> digit_val (a ! 8) = digit_val (b ! 8) \<and>
     (digit_val (a ! 9) < digit_val (b ! 9) \<or> digit_val (a ! 9) = digit_val (b ! 9) \<and> True)"
    using lex2[OF that ra(7,8) rb(7,8)] unfolding fa fb by linarith
  ultimately show ?thesis by blast
qed


subsection \<open>The calendar\<close>

lemma month_cases:
  fixes m :: int
  assumes "1 \<le> m" "m \<le> 12"
  shows "m = 1 \<or> m = 2 \<or> m = 3 \<or> m = 4 \<or> m = 5 \<or> m = 6 \<or> m = 7 \<or> m = 8 \<or> m = 9 \<or>
         m = 10 \<or> m = 11 \<or> m = 12"
  using assms by arith

lemma daysInMonth_bounds: "28 \<le> daysInMonth y m" "daysInMonth y m \<le> 31"
  by (simp_all add: daysInMonth_def)

lemma daysBeforeMonth_step:
  assumes "1 \<le> m" "m \<le> 11"
  shows "daysBeforeMonth y (m + 1) = daysBeforeMonth y m + daysInMonth y m"
proof -
  have "m = 1 \<or> m = 2 \<or> m = 3 \<or> m = 4 \<or> m = 5 \<or> m = 6 \<or> m = 7 \<or> m = 8 \<or> m = 9 \<or>
         m = 10 \<or> m = 11"
    using assms by arith
  then show ?thesis
    by (elim disjE) (simp_all add: daysBeforeMonth_def daysInMonth_def)
qed

lemma daysBeforeMonth_mono:
  assumes "1 \<le> m" "m < m'" "m' \<le> 12"
  shows "daysBeforeMonth y m + daysInMonth y m \<le> daysBeforeMonth y m'"
proof -
  have "m + 1 \<le> m'" using assms(2) by simp
  then have "m' \<le> 12 \<longrightarrow> daysBeforeMonth y m + daysInMonth y m \<le> daysBeforeMonth y m'"
  proof (induction m' rule: int_ge_induct)
    case base
    then show ?case using assms(1) by (simp add: daysBeforeMonth_step)
  next
    case (step i)
    show ?case
    proof
      assume "i + 1 \<le> 12"
      then have i: "1 \<le> i" "i \<le> 11" using step.hyps assms(1) by linarith+
      then have "daysBeforeMonth y (i + 1) = daysBeforeMonth y i + daysInMonth y i"
        by (rule daysBeforeMonth_step)
      then show "daysBeforeMonth y m + daysInMonth y m \<le> daysBeforeMonth y (i + 1)"
        using step.IH i daysInMonth_bounds(1)[of y i] by linarith
    qed
  qed
  then show ?thesis using assms(3) by simp
qed

lemma dayOfYear_bound:
  assumes "1 \<le> m" "m \<le> 12"
  shows "0 \<le> daysBeforeMonth y m"
    and "daysBeforeMonth y m + daysInMonth y m \<le> (if isLeapYear y then 366 else 365)"
  using month_cases[OF assms]
  by (elim disjE; simp add: daysBeforeMonth_def daysInMonth_def)+

lemma div_step:
  fixes y n :: int
  assumes "0 < n"
  shows "y div n = (y - 1) div n + (if y mod n = 0 then 1 else 0)"
proof -
  define q where "q = (y - 1) div n"
  define r where "r = (y - 1) mod n"
  have r: "0 \<le> r" "r < n" using assms by (simp_all add: r_def)
  have y: "y = n * q + (r + 1)" by (simp add: q_def r_def)
  show ?thesis
  proof (cases "r + 1 = n")
    case True
    then have "y = n * (q + 1) + 0" using y by (simp add: algebra_simps)
    then have "y div n = q + 1" "y mod n = 0"
      using assms by (simp_all add: int_div_pos_eq int_mod_pos_eq)
    then show ?thesis by (simp add: q_def)
  next
    case False
    then have "0 \<le> r + 1" "r + 1 < n" using r by linarith+
    then have "y div n = q" "y mod n = r + 1"
      using y by (simp_all add: int_div_pos_eq int_mod_pos_eq)
    then show ?thesis using r by (simp add: q_def)
  qed
qed

lemma leapsBefore_step: "leapsBefore (y + 1) = leapsBefore y + (if isLeapYear y then 1 else 0)"
proof -
  define a b c where "a = (y - 1) div 4" and "b = (y - 1) div 100" and "c = (y - 1) div 400"
  define p q r where "p \<longleftrightarrow> y mod 4 = 0" and "q \<longleftrightarrow> y mod 100 = 0" and "r \<longleftrightarrow> y mod 400 = 0"
  have 4: "y div 4 = a + (if p then 1 else 0)"
    unfolding a_def p_def by (rule div_step) simp
  have 100: "y div 100 = b + (if q then 1 else 0)"
    unfolding b_def q_def by (rule div_step) simp
  have 400: "y div 400 = c + (if r then 1 else 0)"
    unfolding c_def r_def by (rule div_step) simp
  have "(4::int) dvd 100" "(100::int) dvd 400" by simp_all
  then have d: "q \<longrightarrow> p" "r \<longrightarrow> q"
    unfolding p_def q_def r_def mod_eq_0_iff_dvd by (blast intro: dvd_trans)+
  have l1: "leapsBefore (y + 1) = y div 4 - y div 100 + y div 400"
    unfolding leapsBefore_def by simp
  have l0: "leapsBefore y = a - b + c"
    unfolding leapsBefore_def a_def b_def c_def ..
  have leap: "isLeapYear y \<longleftrightarrow> p \<and> (\<not> q \<or> r)"
    unfolding isLeapYear_def p_def q_def r_def ..
  show ?thesis
    unfolding l1 l0 leap 4 100 400 using d by (cases p; cases q; cases r) simp_all
qed

text \<open>The first day of a later year comes after the last day of an earlier one.\<close>

lemma year_mono:
  assumes "y < y'"
  shows "365 * y + leapsBefore y + (if isLeapYear y then 366 else 365) \<le> 365 * y' + leapsBefore y'"
proof -
  have "y + 1 \<le> y'" using assms by simp
  then show ?thesis
  proof (induction y' rule: int_ge_induct)
    case base
    show ?case by (simp add: leapsBefore_step)
  next
    case (step i)
    have "leapsBefore i \<le> leapsBefore (i + 1)" by (simp add: leapsBefore_step)
    then show ?case using step.IH by (cases "isLeapYear y") simp_all
  qed
qed

lemma daysFromEpoch_mono:
  assumes a: "1 \<le> m" "m \<le> 12" "1 \<le> d" "d \<le> daysInMonth y m"
    and b: "1 \<le> m'" "m' \<le> 12" "1 \<le> d'" "d' \<le> daysInMonth y' m'"
    and le: "y < y' \<or> y = y' \<and> (m < m' \<or> m = m' \<and> d \<le> d')"
  shows "daysFromEpoch y m d \<le> daysFromEpoch y' m' d'"
proof -
  consider (year) "y < y'" | (month) "y = y'" "m < m'" | (day) "y = y'" "m = m'" "d \<le> d'"
    using le by blast
  then show ?thesis
  proof cases
    case year
    have "daysBeforeMonth y m + d \<le> (if isLeapYear y then 366 else 365)"
      using dayOfYear_bound(2)[OF a(1,2), of y] a(4) by linarith
    moreover have "0 \<le> daysBeforeMonth y' m'" using b(1,2) by (rule dayOfYear_bound(1))
    ultimately show ?thesis
      using year_mono[OF year] b(3) unfolding daysFromEpoch_def
      by (cases "isLeapYear y") simp_all
  next
    case month
    have "daysBeforeMonth y m + daysInMonth y m \<le> daysBeforeMonth y m'"
      using a(1) month(2) b(2) by (rule daysBeforeMonth_mono)
    then show ?thesis
      using a(4) b(3) unfolding daysFromEpoch_def month(1)[symmetric] by linarith
  next
    case day
    then show ?thesis unfolding daysFromEpoch_def by simp
  qed
qed

lemma isoDateMs_mono:
  assumes "isoDate a" "isoDate b" "a \<le> b"
  shows "isoDateMs a \<le> isoDateMs b"
proof -
  have va: "1 \<le> isoMonth a" "isoMonth a \<le> 12" "1 \<le> isoDay a"
    "isoDay a \<le> daysInMonth (isoYear a) (isoMonth a)"
    using assms(1) by (simp_all add: isoDate_def)
  have vb: "1 \<le> isoMonth b" "isoMonth b \<le> 12" "1 \<le> isoDay b"
    "isoDay b \<le> daysInMonth (isoYear b) (isoMonth b)"
    using assms(2) by (simp_all add: isoDate_def)
  have "daysFromEpoch (isoYear a) (isoMonth a) (isoDay a)
          \<le> daysFromEpoch (isoYear b) (isoMonth b) (isoDay b)"
    using va vb isoDate_le_fields[OF assms] by (rule daysFromEpoch_mono)
  then show ?thesis by (simp add: isoDateMs_def)
qed

subsection \<open>The sort orders the dates\<close>

lemma set_insort_cmp: "set (insort_cmp cmp x xs) = insert x (set xs)"
  by (induction xs) auto

lemma sorted_insort_cmp:
  fixes key :: "'a \<Rightarrow> 'k::linorder"
  assumes "\<forall>a\<in>insert x (set xs). \<forall>b\<in>insert x (set xs). (cmp a b \<le> 0) = (key a \<le> key b)"
    and "sorted (map key xs)"
  shows "sorted (map key (insort_cmp cmp x xs))"
  using assms
proof (induction xs)
  case Nil
  then show ?case by simp
next
  case (Cons y ys)
  show ?case
  proof (cases "cmp x y \<le> 0")
    case True
    then have "key x \<le> key y" using Cons.prems(1) by simp
    then show ?thesis using True Cons.prems(2) by auto
  next
    case False
    then have "key y \<le> key x" using Cons.prems(1) by auto
    moreover have "sorted (map key (insort_cmp cmp x ys))"
      using Cons.IH Cons.prems by simp
    ultimately show ?thesis using False Cons.prems(2) by (auto simp add: set_insort_cmp)
  qed
qed

lemma sorted_sort_cmp:
  fixes key :: "'a \<Rightarrow> 'k::linorder"
  assumes "\<forall>a\<in>set xs. \<forall>b\<in>set xs. (cmp a b \<le> 0) = (key a \<le> key b)"
  shows "sorted (map key (sort_cmp cmp xs))"
  using assms
proof (induction xs)
  case Nil
  then show ?case by (simp add: sort_cmp_def)
next
  case (Cons x xs)
  have "sorted (map key (sort_cmp cmp xs))" using Cons by simp
  moreover have "set (sort_cmp cmp xs) = set xs" by (rule set_sort_cmp)
  ultimately have "sorted (map key (insort_cmp cmp x (sort_cmp cmp xs)))"
    using Cons.prems by (intro sorted_insort_cmp) simp_all
  then show ?case by (simp add: sort_cmp_def)
qed

lemma buildFxIndex_sorted:
  assumes iso: "\<forall>r\<in>set fxRows. fxKeep r \<longrightarrow> isoDate (the (date r))"
    and gt: "\<forall>s. isoDate s \<longrightarrow> getTime s = Num (of_int (isoDateMs s))"
    and cmp: "\<forall>a b. isoDate a \<and> isoDate b \<longrightarrow> (localeCompare a b \<le> 0) = (a \<le> b)"
  shows "sorted_wrt js_le (datesMs (buildFxIndex getTime localeCompare fxRows envFallback))"
proof -
  let ?key = "\<lambda>r. the (date r)"
  let ?clean = "fxClean localeCompare fxRows"
  have kept: "isoDate (?key r)" if "r \<in> set (filter fxKeep fxRows)" for r
    using that iso by simp
  have "sorted (map ?key ?clean)"
    unfolding fxClean_def using kept cmp by (intro sorted_sort_cmp) simp
  then have s: "sorted_wrt (\<lambda>a b. ?key a \<le> ?key b) ?clean"
    by (simp add: sorted_map)
  have in_clean: "isoDate (?key r)" if "r \<in> set ?clean" for r
    using that kept by (simp add: fxClean_def set_sort_cmp)
  have "sorted_wrt (\<lambda>a b. js_le (getTime (?key a)) (getTime (?key b))) ?clean"
  proof (rule sorted_wrt_mono_rel[OF _ s])
    fix a b
    assume "a \<in> set ?clean" "b \<in> set ?clean" "?key a \<le> ?key b"
    then have "isoDate (?key a)" "isoDate (?key b)" "isoDateMs (?key a) \<le> isoDateMs (?key b)"
      using in_clean isoDateMs_mono by blast+
    then show "js_le (getTime (?key a)) (getTime (?key b))" using gt by simp
  qed
  then show ?thesis by (simp add: buildFxIndex_fields sorted_wrt_map)
qed

lemma buildFxIndex_rates_positive:
  "x \<in> set (rates (buildFxIndex getTime localeCompare fxRows envFallback)) \<Longrightarrow> js_lt (Num 0) x"
  by (auto simp add: buildFxIndex_fields fxClean_def set_sort_cmp fxKeep_rate)

text \<open>
  Claim C10. Every index made by \<^verbatim>\<open>buildFxIndex\<close> has as many dates as rates, every rate it
  stores is greater than zero, and when it is not empty \<^verbatim>\<open>lastDateMs\<close> and \<^verbatim>\<open>lastRate\<close> are
  the last elements of the two arrays. When the dates of the rows that pass the filter are
  ISO 8601 calendar dates (which \<^verbatim>\<open>new Date(s).getTime()\<close> reads as midnight UTC and
  \<^verbatim>\<open>localeCompare\<close> orders from the left, character by character), the dates of the index
  are in non-decreasing order. The lookups \<^verbatim>\<open>findFxIdxAtOrBefore\<close> and \<^verbatim>\<open>getUsdNokAt\<close> assign
  to no field and to no array element of the index in the source, which is why they are
  functions from the index to their result here: after a lookup the index is the value it
  was before.
\<close>

theorem buildFxIndex_wellformed:
  "(let idx = buildFxIndex getTime localeCompare fxRows envFallback in
     length (datesMs idx) = length (rates idx) \<and>
     (\<forall>x\<in>set (rates idx). js_lt (Num 0) x) \<and>
     (datesMs idx \<noteq> [] \<longrightarrow>
        lastDateMs idx = Some (last (datesMs idx)) \<and> lastRate idx = Some (last (rates idx))) \<and>
     ((\<forall>r\<in>set fxRows. fxKeep r \<longrightarrow> isoDate (the (date r))) \<and>
      (\<forall>s. isoDate s \<longrightarrow> getTime s = Num (of_int (isoDateMs s))) \<and>
      (\<forall>a b. isoDate a \<and> isoDate b \<longrightarrow> (localeCompare a b \<le> 0) = (a \<le> b)) \<longrightarrow>
        sorted_wrt js_le (datesMs idx)))"
  unfolding Let_def
proof (intro conjI impI ballI)
  show "length (datesMs (buildFxIndex getTime localeCompare fxRows envFallback))
          = length (rates (buildFxIndex getTime localeCompare fxRows envFallback))"
    by (simp add: buildFxIndex_fields)
next
  fix x
  assume "x \<in> set (rates (buildFxIndex getTime localeCompare fxRows envFallback))"
  then show "js_lt (Num 0) x" by (rule buildFxIndex_rates_positive)
next
  assume "datesMs (buildFxIndex getTime localeCompare fxRows envFallback) \<noteq> []"
  then have ne: "filter fxKeep fxRows \<noteq> []"
    by (auto simp add: buildFxIndex_fields fxClean_def sort_cmp_def)
  then show "lastDateMs (buildFxIndex getTime localeCompare fxRows envFallback)
           = Some (last (datesMs (buildFxIndex getTime localeCompare fxRows envFallback)))"
    by (rule buildFxIndex_last)
  from ne show "lastRate (buildFxIndex getTime localeCompare fxRows envFallback)
           = Some (last (rates (buildFxIndex getTime localeCompare fxRows envFallback)))"
    by (rule buildFxIndex_last)
next
  assume "(\<forall>r\<in>set fxRows. fxKeep r \<longrightarrow> isoDate (the (date r))) \<and>
      (\<forall>s. isoDate s \<longrightarrow> getTime s = Num (of_int (isoDateMs s))) \<and>
      (\<forall>a b. isoDate a \<and> isoDate b \<longrightarrow> (localeCompare a b \<le> 0) = (a \<le> b))"
  then show "sorted_wrt js_le (datesMs (buildFxIndex getTime localeCompare fxRows envFallback))"
    using buildFxIndex_sorted by blast
qed

text \<open>
  The theorem at seven rows the filter removes followed by two records out of order: the
  index has the two records in the order of their dates.
\<close>

theorem buildFxIndex_wellformed_witness:
  "datesMs (buildFxIndex Date_getTime String_localeCompare (rejected_fx @ drift_fx) (Num 10))
     = [Num 0, Num 86400000] \<and>
   rates (buildFxIndex Date_getTime String_localeCompare (rejected_fx @ drift_fx) (Num 10))
     = [Num 10, Num 11] \<and>
   sorted_wrt js_le
     (datesMs (buildFxIndex Date_getTime String_localeCompare (rejected_fx @ drift_fx) (Num 10))) \<and>
   lastDateMs (buildFxIndex Date_getTime String_localeCompare (rejected_fx @ drift_fx) (Num 10))
     = Some (Num 86400000) \<and>
   lastRate (buildFxIndex Date_getTime String_localeCompare (rejected_fx @ drift_fx) (Num 10))
     = Some (Num 11)"
proof -
  have iso: "\<forall>r\<in>set (rejected_fx @ drift_fx). fxKeep r \<longrightarrow> isoDate (the (date r))"
    by (simp add: rejected_fx_def drift_fx_def fxKeep_def date_defs)
  have gt: "\<forall>s. isoDate s \<longrightarrow> Date_getTime s = Num (of_int (isoDateMs s))"
    by (simp add: Date_getTime_def)
  have cmp: "\<forall>a b. isoDate a \<and> isoDate b \<longrightarrow> (String_localeCompare a b \<le> 0) = (a \<le> b)"
    by (auto simp add: String_localeCompare_def)
  have d: "datesMs (buildFxIndex Date_getTime String_localeCompare (rejected_fx @ drift_fx) (Num 10))
     = [Num 0, Num 86400000]"
    by (simp add: rejected_fx_def drift_fx_def fx_defs date_defs)
  have r: "rates (buildFxIndex Date_getTime String_localeCompare (rejected_fx @ drift_fx) (Num 10))
     = [Num 10, Num 11]"
    by (simp add: rejected_fx_def drift_fx_def fx_defs date_defs)
  show ?thesis
    using iso gt cmp d r
      buildFxIndex_wellformed[of Date_getTime String_localeCompare "rejected_fx @ drift_fx" "Num 10"]
    by (simp add: Let_def)
qed

end
